theory Spec2Isabelle
  imports Main "HOL-Library.Word" "HOL-Library.List_Lexorder" "HOL-Library.Multiset"
begin

unbundle bit_operations_syntax

section \<open>Data model of migrate\_runs.go\<close>

text \<open>
  A byte is an unsigned 8-bit word. A commit hash (\<open>plumbing.Hash\<close>, a \<open>[20]byte\<close> array)
  is the list of its bytes; a commit read from the repository always carries 20 of them,
  which \<open>wf_commit\<close> records. Besides its hash an \<open>object.Commit\<close> carries data the
  matching never reads (author, message, parents); the field \<open>Message\<close> stands for it.
\<close>

type_synonym byte = "8 word"

record commit =
  Hash :: "byte list"
  Message :: string

definition wf_commit :: "commit \<Rightarrow> bool" where
  "wf_commit c = (length (Hash c) = 20)"

text \<open>A test run (\<open>shared.TestRun\<close>); only its revision string is read here.\<close>

record TestRun =
  Revision :: string

text \<open>
  The error values the program tests for or passes to \<open>log.Fatal\<close>:
  the two sentinels of go-git, \<open>io.EOF\<close>, the two errors of \<open>encoding/hex\<close>,
  and any other error, identified by its text.
\<close>

datatype err =
    ErrRepositoryNotExists
  | NoErrAlreadyUpToDate
  | EOF
  | InvalidByteError char
  | ErrLength
  | OtherError string

text \<open>
  How a run ends early: \<open>log.Fatal(err)\<close>, the \<open>log.Fatalf\<close> on the decoded length,
  or a runtime panic (nil receiver, index out of range). All three stop the whole process.
\<close>

datatype abort =
    Fatal err
  | FatalHashLength nat
  | PanicNilDereference
  | PanicIndexOutOfRange

section \<open>Byte comparison\<close>

text \<open>
  \<open>bytes.Compare\<close>: lexicographic comparison of two byte slices, bytes read as unsigned;
  the result is \<open>-1\<close>, \<open>0\<close> or \<open>1\<close>.
\<close>

fun bytes_Compare :: "byte list \<Rightarrow> byte list \<Rightarrow> int" where
  "bytes_Compare [] [] = 0"
| "bytes_Compare [] (y # ys) = - 1"
| "bytes_Compare (x # xs) [] = 1"
| "bytes_Compare (x # xs) (y # ys) =
     (if x < y then - 1 else if y < x then 1 else bytes_Compare xs ys)"

text \<open>\<open>byHash.Less\<close>, on the two commits rather than on their positions.\<close>

definition byHash_Less :: "commit \<Rightarrow> commit \<Rightarrow> bool" where
  "byHash_Less ci cj = (bytes_Compare (Hash ci) (Hash cj) = - 1)"

section \<open>findHash\<close>

text \<open>
  \<open>commits[:mid]\<close> is \<open>take mid commits\<close> and \<open>commits[mid+1:]\<close> is
  \<open>drop (mid + 1) commits\<close>. The slice \<open>Hash[len(Hash)-5:]\<close> is the last five bytes
  of the hash. The result is a Go \<open>int\<close>; it stays between \<open>-1\<close> and the length of the
  slice, so no wrap-around can occur and \<open>int\<close> models it.
\<close>

definition suffix5 :: "commit \<Rightarrow> byte list" where
  "suffix5 c = drop (length (Hash c) - 5) (Hash c)"

function findHash :: "commit list \<Rightarrow> byte list \<Rightarrow> int" where
  "findHash commits shortHash =
     (let mid = length commits div 2 in
      if length commits = 0 then - 1
      else
        let commitHash = suffix5 (commits ! mid);
            cmp = bytes_Compare commitHash shortHash
        in if cmp = 1 then findHash (take mid commits) shortHash
           else if cmp = - 1 then findHash (drop (mid + 1) commits) shortHash + int mid + 1
           else int mid)"
  by pat_completeness auto
termination
  by (relation "measure (\<lambda>(commits, shortHash). length commits)") auto

declare findHash.simps [simp del]

section \<open>Hexadecimal decoding\<close>

text \<open>
  \<open>hex.DecodeString\<close> of Go's \<open>encoding/hex\<close>. The input is read two characters at a
  time; a character that is no hexadecimal digit (either case is accepted) gives
  \<open>InvalidByteError\<close>, and an odd number of characters gives \<open>ErrLength\<close> once all
  characters have been found valid. The caller looks at the bytes only when no error is
  returned, so the model returns either the error or the bytes.
\<close>

definition fromHexChar :: "char \<Rightarrow> byte option" where
  "fromHexChar c =
     (let n = (of_char c :: nat) in
      if 48 \<le> n \<and> n \<le> 57 then Some (of_nat (n - 48))
      else if 97 \<le> n \<and> n \<le> 102 then Some (of_nat (n - 87))
      else if 65 \<le> n \<and> n \<le> 70 then Some (of_nat (n - 55))
      else None)"

fun hex_DecodeString :: "string \<Rightarrow> err + byte list" where
  "hex_DecodeString [] = Inr []"
| "hex_DecodeString [p] =
     (case fromHexChar p of None \<Rightarrow> Inl (InvalidByteError p) | Some a \<Rightarrow> Inl ErrLength)"
| "hex_DecodeString (p # q # rest) =
     (case fromHexChar p of
        None \<Rightarrow> Inl (InvalidByteError p)
      | Some a \<Rightarrow>
          (case fromHexChar q of
             None \<Rightarrow> Inl (InvalidByteError q)
           | Some b \<Rightarrow>
               (case hex_DecodeString rest of
                  Inl e \<Rightarrow> Inl e
                | Inr bs \<Rightarrow> Inr ((push_bit 4 a OR b) # bs))))"

section \<open>Building the index\<close>

text \<open>
  \<open>sort.Sort\<close> belongs to Go's standard library. It rearranges the slice, using only
  \<open>Len\<close>, \<open>Swap\<close> and \<open>Less\<close>, into an order in which no element is \<open>Less\<close> than one
  before it. The model is an insertion sort driven by the same \<open>Less\<close>.
\<close>

fun insert_Less :: "('a \<Rightarrow> 'a \<Rightarrow> bool) \<Rightarrow> 'a \<Rightarrow> 'a list \<Rightarrow> 'a list" where
  "insert_Less lt x [] = [x]"
| "insert_Less lt x (y # ys) =
     (if lt x y then x # y # ys else y # insert_Less lt x ys)"

definition sort_Sort :: "('a \<Rightarrow> 'a \<Rightarrow> bool) \<Rightarrow> 'a list \<Rightarrow> 'a list" where
  "sort_Sort lt xs = foldr (insert_Less lt) xs []"

text \<open>The index: the enumerated commits, sorted with \<open>byHash\<close> (line 137).\<close>

definition build :: "commit list \<Rightarrow> commit list" where
  "build commits = sort_Sort byHash_Less commits"

section \<open>Matching the runs\<close>

text \<open>
  The state the goroutines of \<open>getCommitForRuns\<close> share: the slice \<open>found\<close>, whose
  nil entries are \<open>None\<close>, and the lines written with \<open>log.Printf\<close>.
\<close>

record match_state =
  found :: "commit option list"
  logged :: "string list"

text \<open>
  The body of the goroutine started for position \<open>i\<close> (lines 145 to 159). It reads the
  index, which nothing changes any more, and writes at most its own slot \<open>found[i]\<close>, so
  it is taken as one step on the shared state. Go checks both index expressions at run
  time; the model has the panic as a result.
\<close>

definition goroutine :: "commit list \<Rightarrow> nat \<Rightarrow> TestRun \<Rightarrow> match_state \<Rightarrow> abort + match_state" where
  "goroutine commits i run st =
     (case hex_DecodeString (Revision run) of
        Inl e \<Rightarrow> Inl (Fatal e)
      | Inr runHash \<Rightarrow>
          if length runHash \<noteq> 5 then Inl (FatalHashLength (length runHash))
          else
            let idx = findHash commits runHash in
            if idx = - 1
            then Inr (st\<lparr>logged := logged st @ [''Failed to find revision for '' @ Revision run]\<rparr>)
            else if idx < 0 \<or> int (length commits) \<le> idx \<or> length (found st) \<le> i
            then Inl PanicIndexOutOfRange
            else Inr (st\<lparr>logged := logged st @ [''Found commit for '' @ Revision run],
                          found := (found st)[i := Some (commits ! nat idx)]\<rparr>))"

text \<open>
  The outcome of resolving one record by itself: the goroutine body run alone, on a
  slice \<open>found\<close> of one nil entry; what it leaves in that entry (a commit or nil), or
  its abort.
\<close>

definition resolve_alone :: "commit list \<Rightarrow> TestRun \<Rightarrow> abort + commit option" where
  "resolve_alone commits run =
     (case goroutine commits 0 run \<lparr>found = [None], logged = []\<rparr> of
        Inl a \<Rightarrow> Inl a
      | Inr st \<Rightarrow> Inr (found st ! 0))"

text \<open>What a slot holds after its goroutine has run, given what it held before.\<close>

definition slot_after :: "commit list \<Rightarrow> TestRun \<Rightarrow> commit option \<Rightarrow> commit option" where
  "slot_after commits run old =
     (case resolve_alone commits run of Inr (Some c) \<Rightarrow> Some c | _ \<Rightarrow> old)"

text \<open>
  The goroutines take effect in some order, the schedule: a list of positions.
  \<open>log.Fatal\<close> ends the process, so the first abort ends the run.
\<close>

fun run_goroutines ::
  "commit list \<Rightarrow> TestRun list \<Rightarrow> nat list \<Rightarrow> match_state \<Rightarrow> abort + match_state" where
  "run_goroutines commits runs [] st = Inr st"
| "run_goroutines commits runs (i # sched) st =
     (case goroutine commits i (runs ! i) st of
        Inl a \<Rightarrow> Inl a
      | Inr st' \<Rightarrow> run_goroutines commits runs sched st')"

text \<open>A schedule for \<open>n\<close> runs starts every goroutine once: a permutation of \<open>0..n-1\<close>.\<close>

definition schedule :: "nat \<Rightarrow> nat list \<Rightarrow> bool" where
  "schedule n sched = (mset sched = mset [0..<n])"

text \<open>
  A repository is a reference (a \<open>*git.Repository\<close>; nil is \<open>None\<close>). What go-git does
  with it is outside this program and is given by an environment: the results of
  \<open>git.Open\<close> and \<open>git.Clone\<close> for the configured path, of \<open>Worktree\<close> and \<open>Pull\<close>,
  and of \<open>CommitObjects\<close>, as the commits the iterator yields before its first nil
  together with the error that comes with the nil.
\<close>

type_synonym repo_ref = nat

record git_env =
  git_Open :: "err + repo_ref"
  git_Clone :: "err + repo_ref"
  repo_Worktree :: "repo_ref \<Rightarrow> err + repo_ref"
  wt_Pull :: "repo_ref \<Rightarrow> err option"
  repo_CommitObjects :: "repo_ref \<Rightarrow> err + (commit list \<times> err)"

text \<open>
  \<open>getCommitForRuns\<close> (lines 122 to 165), with the schedule of its goroutines as an
  argument. Calling \<open>CommitObjects\<close> on a nil repository dereferences nil.
\<close>

definition getCommitForRuns ::
  "git_env \<Rightarrow> nat list \<Rightarrow> repo_ref option \<Rightarrow> TestRun list \<Rightarrow> abort + match_state" where
  "getCommitForRuns env sched repo runs =
     (case repo of
        None \<Rightarrow> Inl PanicNilDereference
      | Some r \<Rightarrow>
          (case repo_CommitObjects env r of
             Inl e \<Rightarrow> Inl (Fatal e)
           | Inr (commits, e) \<Rightarrow>
               if e \<noteq> EOF then Inl (Fatal e)
               else run_goroutines (build commits) runs sched
                      \<lparr>found = replicate (length runs) None,
                       logged = [''Gathering commits'', ''Sorting commits'', ''Matching commits'']\<rparr>))"

section \<open>Obtaining the repository\<close>

text \<open>The calls into go-git that \<open>getGit\<close> makes, in order.\<close>

datatype git_call = CallOpen | CallClone | CallWorktree | CallPull

text \<open>\<open>getGit\<close> (lines 83 to 103): the calls made, and the abort or the returned pointer.\<close>

definition getGit :: "git_env \<Rightarrow> git_call list \<times> (abort + repo_ref option)" where
  "getGit env =
     (case git_Open env of
        Inl e \<Rightarrow>
          if e = ErrRepositoryNotExists
          then (case git_Clone env of
                  Inl e' \<Rightarrow> ([CallOpen, CallClone], Inl (Fatal e'))
                | Inr repo \<Rightarrow> ([CallOpen, CallClone], Inr None))
          else ([CallOpen], Inl (Fatal e))
      | Inr repo \<Rightarrow>
          (case repo_Worktree env repo of
             Inl e \<Rightarrow> ([CallOpen, CallWorktree], Inl (Fatal e))
           | Inr wt \<Rightarrow>
               (case wt_Pull env wt of
                  None \<Rightarrow> ([CallOpen, CallWorktree, CallPull], Inr (Some repo))
                | Some e \<Rightarrow>
                    if e \<noteq> NoErrAlreadyUpToDate
                    then ([CallOpen, CallWorktree, CallPull], Inl (Fatal e))
                    else ([CallOpen, CallWorktree, CallPull], Inr (Some repo)))))"

text \<open>
  \<open>main\<close> from line 191 on, once the runs have been fetched: obtain the repository,
  then match the runs against it.
\<close>

definition main_run :: "git_env \<Rightarrow> nat list \<Rightarrow> TestRun list \<Rightarrow> abort + match_state" where
  "main_run env sched runs =
     (case snd (getGit env) of
        Inl a \<Rightarrow> Inl a
      | Inr repo \<Rightarrow> getCommitForRuns env sched repo runs)"

section \<open>bytes.Compare and the lexicographic order\<close>

text \<open>
  \<open>bytes.Compare\<close> decides the lexicographic order on byte lists in which bytes compare
  as unsigned numbers: the order \<open><\<close> of \<open>byte list\<close>.
\<close>

lemma bytes_Compare_less: "bytes_Compare a b = - 1 \<longleftrightarrow> a < b"
  by (induction a b rule: bytes_Compare.induct) auto

lemma bytes_Compare_greater: "bytes_Compare a b = 1 \<longleftrightarrow> b < a"
  by (induction a b rule: bytes_Compare.induct) auto

lemma bytes_Compare_values: "bytes_Compare a b \<in> {- 1, 0, 1}"
  by (induction a b rule: bytes_Compare.induct) auto

lemma bytes_Compare_equal: "bytes_Compare a b = 0 \<longleftrightarrow> a = b"
  by (induction a b rule: bytes_Compare.induct) auto

section \<open>Properties of findHash\<close>

text \<open>For a commit with its 20 bytes, \<open>suffix5\<close> is bytes 15 to 19 of the hash.\<close>

lemma suffix5_wf_commit:
  "wf_commit c \<Longrightarrow> suffix5 c = drop 15 (Hash c) \<and> length (suffix5 c) = 5"
  by (simp add: wf_commit_def suffix5_def)

text \<open>The four paths through the body, one equation each.\<close>

lemma findHash_empty: "findHash [] shortHash = - 1"
  by (simp add: findHash.simps [of "[]"])

lemma findHash_lower:
  assumes "commits \<noteq> []"
    and "bytes_Compare (suffix5 (commits ! (length commits div 2))) shortHash = 1"
  shows "findHash commits shortHash = findHash (take (length commits div 2) commits) shortHash"
  using assms by (subst findHash.simps) (simp add: Let_def)

lemma findHash_upper:
  assumes "commits \<noteq> []"
    and "bytes_Compare (suffix5 (commits ! (length commits div 2))) shortHash = - 1"
  shows "findHash commits shortHash =
         findHash (drop (length commits div 2 + 1) commits) shortHash
           + int (length commits div 2) + 1"
  using assms by (subst findHash.simps) (simp add: Let_def)

lemma findHash_mid:
  assumes "commits \<noteq> []"
    and "bytes_Compare (suffix5 (commits ! (length commits div 2))) shortHash \<noteq> 1"
    and "bytes_Compare (suffix5 (commits ! (length commits div 2))) shortHash \<noteq> - 1"
  shows "findHash commits shortHash = int (length commits div 2)"
  using assms by (subst findHash.simps) (simp add: Let_def)

lemma findHash_range: "findHash commits shortHash = - 1 \<or>
    (0 \<le> findHash commits shortHash \<and> findHash commits shortHash < int (length commits))"
proof (induction commits shortHash rule: findHash.induct)
  case (1 commits shortHash)
  show ?case
  proof (cases "commits = []")
    case True
    then show ?thesis by (simp add: findHash_empty)
  next
    case False
    define mid where "mid = length commits div 2"
    define cmp where "cmp = bytes_Compare (suffix5 (commits ! mid)) shortHash"
    have len: "length commits \<noteq> 0" using False by simp
    have mid: "mid < length commits" using False by (simp add: mid_def)
    consider (hi) "cmp = 1" | (lo) "cmp \<noteq> 1" "cmp = - 1" | (eq) "cmp \<noteq> 1" "cmp \<noteq> - 1"
      by blast
    then show ?thesis
    proof cases
      case hi
      have eq: "findHash commits shortHash = findHash (take mid commits) shortHash"
        using findHash_lower [OF False] hi by (simp add: mid_def cmp_def)
      have "findHash (take mid commits) shortHash = - 1 \<or>
            (0 \<le> findHash (take mid commits) shortHash \<and>
             findHash (take mid commits) shortHash < int (length (take mid commits)))"
        using "1.IH"(1) [OF refl len refl refl] hi by (simp add: mid_def cmp_def)
      then show ?thesis using eq mid by auto
    next
      case lo
      have eq: "findHash commits shortHash =
                findHash (drop (mid + 1) commits) shortHash + int mid + 1"
        using findHash_upper [OF False] lo by (simp add: mid_def cmp_def)
      have "findHash (drop (mid + 1) commits) shortHash = - 1 \<or>
            (0 \<le> findHash (drop (mid + 1) commits) shortHash \<and>
             findHash (drop (mid + 1) commits) shortHash
               < int (length (drop (mid + 1) commits)))"
        using "1.IH"(2) [OF refl len refl refl] lo by (simp add: mid_def cmp_def)
      then show ?thesis using eq mid by auto
    next
      case eq
      have "findHash commits shortHash = int mid"
        using findHash_mid [OF False] eq by (simp add: mid_def cmp_def)
      then show ?thesis using mid by simp
    qed
  qed
qed

text \<open>
  On a slice ordered by the last five bytes, a suffix that occurs is found: the search
  never leaves the part of the slice that holds it.
\<close>

lemma findHash_hit:
  "sorted (map suffix5 commits) \<Longrightarrow> shortHash \<in> suffix5 ` set commits \<Longrightarrow>
   0 \<le> findHash commits shortHash \<and> findHash commits shortHash < int (length commits) \<and>
   suffix5 (commits ! nat (findHash commits shortHash)) = shortHash"
proof (induction commits shortHash rule: findHash.induct)
  case (1 commits shortHash)
  from "1.prems"(2) have ne: "commits \<noteq> []" by auto
  then have len: "length commits \<noteq> 0" by simp
  define mid where "mid = length commits div 2"
  define cmp where "cmp = bytes_Compare (suffix5 (commits ! mid)) shortHash"
  have mid: "mid < length commits" using ne by (simp add: mid_def)
  obtain k where k: "k < length commits" "suffix5 (commits ! k) = shortHash"
    using "1.prems"(2) by (auto simp: in_set_conv_nth)
  have mono: "i \<le> j \<Longrightarrow> j < length commits \<Longrightarrow> suffix5 (commits ! i) \<le> suffix5 (commits ! j)" for i j
    using "1.prems"(1) by (simp add: sorted_iff_nth_mono)
  consider (hi) "cmp = 1" | (lo) "cmp \<noteq> 1" "cmp = - 1" | (eq) "cmp \<noteq> 1" "cmp \<noteq> - 1"
    by blast
  then show ?case
  proof cases
    case hi
    have eq: "findHash commits shortHash = findHash (take mid commits) shortHash"
      using findHash_lower [OF ne] hi by (simp add: mid_def cmp_def)
    have lt: "shortHash < suffix5 (commits ! mid)"
      using hi by (simp add: cmp_def bytes_Compare_greater)
    have "k < mid"
    proof (rule ccontr)
      assume "\<not> k < mid"
      then have "suffix5 (commits ! mid) \<le> suffix5 (commits ! k)"
        using mono [of mid k] k(1) by simp
      then show False using lt k(2) by simp
    qed
    then have mem: "shortHash \<in> suffix5 ` set (take mid commits)"
      using k mid by (force simp: in_set_conv_nth)
    have srt: "sorted (map suffix5 (take mid commits))"
      using "1.prems"(1) by (simp add: take_map [symmetric] sorted_wrt_take)
    have ih: "0 \<le> findHash (take mid commits) shortHash \<and>
          findHash (take mid commits) shortHash < int (length (take mid commits)) \<and>
          suffix5 (take mid commits ! nat (findHash (take mid commits) shortHash)) = shortHash"
      using "1.IH"(1) [OF refl len refl refl] hi srt mem by (simp add: mid_def cmp_def)
    then show ?thesis using eq mid by auto
  next
    case lo
    have eq: "findHash commits shortHash =
              findHash (drop (mid + 1) commits) shortHash + int mid + 1"
      using findHash_upper [OF ne] lo by (simp add: mid_def cmp_def)
    have lt: "suffix5 (commits ! mid) < shortHash"
      using lo by (simp add: cmp_def bytes_Compare_less)
    have "mid < k"
    proof (rule ccontr)
      assume "\<not> mid < k"
      then have "suffix5 (commits ! k) \<le> suffix5 (commits ! mid)"
        using mono [of k mid] mid by simp
      then show False using lt k(2) by simp
    qed
    then have "k - (mid + 1) < length (drop (mid + 1) commits)"
      and "drop (mid + 1) commits ! (k - (mid + 1)) = commits ! k"
      using k by auto
    then have mem: "shortHash \<in> suffix5 ` set (drop (mid + 1) commits)"
      using k(2) by (metis image_eqI nth_mem)
    have srt: "sorted (map suffix5 (drop (mid + 1) commits))"
      using "1.prems"(1) by (simp add: drop_map [symmetric] sorted_wrt_drop)
    have ih: "0 \<le> findHash (drop (mid + 1) commits) shortHash \<and>
          findHash (drop (mid + 1) commits) shortHash
            < int (length (drop (mid + 1) commits)) \<and>
          suffix5 (drop (mid + 1) commits ! nat (findHash (drop (mid + 1) commits) shortHash))
            = shortHash"
      using "1.IH"(2) [OF refl len refl refl] lo srt mem by (simp add: mid_def cmp_def)
    define r where "r = findHash (drop (mid + 1) commits) shortHash"
    have r: "0 \<le> r" "r < int (length commits) - int mid - 1"
      "suffix5 (drop (mid + 1) commits ! nat r) = shortHash"
      using ih mid by (auto simp: r_def)
    have "nat (r + int mid + 1) = mid + 1 + nat r" using r(1) by simp
    moreover have "mid + 1 + nat r < length commits" using r(1,2) by simp
    ultimately have "suffix5 (commits ! nat (r + int mid + 1)) = shortHash"
      using r(3) by simp
    then show ?thesis using eq r by (simp add: r_def)
  next
    case eq
    have res: "findHash commits shortHash = int mid"
      using findHash_mid [OF ne] eq by (simp add: mid_def cmp_def)
    have "\<not> suffix5 (commits ! mid) < shortHash" "\<not> shortHash < suffix5 (commits ! mid)"
      using eq by (simp_all add: cmp_def bytes_Compare_less bytes_Compare_greater)
    then have "suffix5 (commits ! mid) = shortHash" by simp
    then show ?thesis using res mid by simp
  qed
qed

section \<open>The order of the index\<close>

lemma byHash_Less_iff: "byHash_Less ci cj \<longleftrightarrow> Hash ci < Hash cj"
  by (simp add: byHash_Less_def bytes_Compare_less)

lemma mset_insert_Less: "mset (insert_Less lt x xs) = add_mset x (mset xs)"
  by (induction xs) auto

lemma mset_sort_Sort: "mset (sort_Sort lt xs) = mset xs"
  by (induction xs) (auto simp: sort_Sort_def mset_insert_Less)

lemma set_insert_Less: "set (insert_Less lt x xs) = insert x (set xs)"
  by (induction xs) auto

lemma sorted_insert_Less:
  "sorted (map Hash xs) \<Longrightarrow> sorted (map Hash (insert_Less byHash_Less x xs))"
  by (induction xs) (auto simp: byHash_Less_iff set_insert_Less)

lemma sorted_build: "sorted (map Hash (build commits))"
  unfolding build_def sort_Sort_def
  by (induction commits) (auto simp: sorted_insert_Less)

lemma mset_build: "mset (build commits) = mset commits"
  by (simp add: build_def mset_sort_Sort)

lemma build_unique:
  assumes "mset idx = mset commits" and "sorted (map Hash idx)"
    and "distinct (map Hash commits)"
  shows "idx = build commits"
proof -
  have m: "mset idx = mset (build commits)"
    using assms(1) by (simp add: mset_build)
  have "mset (map Hash idx) = mset (map Hash commits)"
    using assms(1) by simp
  then have d1: "distinct (map Hash idx)"
    using assms(3) by (metis mset_eq_imp_distinct_iff)
  have "mset (map Hash (build commits)) = mset (map Hash commits)"
    by (simp add: mset_build)
  then have d2: "distinct (map Hash (build commits))"
    using assms(3) by (metis mset_eq_imp_distinct_iff)
  have s: "set idx = set (build commits)"
    using m by (rule mset_eq_setD)
  have inj: "inj_on Hash (set idx \<union> set (build commits))"
    using d1 s by (simp add: distinct_map)
  show ?thesis
    using map_sorted_distinct_set_unique [OF inj assms(2) d1 sorted_build d2 s] .
qed

section \<open>One goroutine, and all of them in some order\<close>

lemma findHash_index:
  "findHash commits shortHash \<noteq> - 1 \<Longrightarrow>
   \<not> (findHash commits shortHash < 0 \<or> int (length commits) \<le> findHash commits shortHash)"
  using findHash_range [of commits shortHash] by auto

lemma findHash_nth_mem:
  "findHash commits shortHash \<noteq> - 1 \<Longrightarrow> commits ! nat (findHash commits shortHash) \<in> set commits"
  using findHash_range [of commits shortHash] by auto

lemma goroutine_alone:
  "goroutine commits i run st =
     (case resolve_alone commits run of
        Inl a \<Rightarrow> Inl a
      | Inr None \<Rightarrow>
          Inr (st\<lparr>logged := logged st @ [''Failed to find revision for '' @ Revision run]\<rparr>)
      | Inr (Some c) \<Rightarrow>
          if length (found st) \<le> i then Inl PanicIndexOutOfRange
          else Inr (st\<lparr>logged := logged st @ [''Found commit for '' @ Revision run],
                        found := (found st)[i := Some c]\<rparr>))"
  by (auto simp: goroutine_def resolve_alone_def Let_def findHash_index
           split: sum.splits option.splits)

lemma resolve_alone_no_panic: "resolve_alone commits run \<noteq> Inl PanicIndexOutOfRange"
  by (auto simp: goroutine_def resolve_alone_def Let_def findHash_index split: sum.splits)

lemma resolve_alone_mem: "resolve_alone commits run = Inr (Some c) \<Longrightarrow> c \<in> set commits"
  by (auto simp: goroutine_def resolve_alone_def Let_def findHash_index findHash_nth_mem
           split: sum.splits if_splits)


lemma goroutine_Inr:
  assumes "goroutine commits i run st = Inr st1"
  shows "\<exists>out. resolve_alone commits run = Inr out"
    and "found st1 = (found st)[i := slot_after commits run (found st ! i)]"
    and "resolve_alone commits run = Inr None \<Longrightarrow>
         logged st1 = logged st @ [''Failed to find revision for '' @ Revision run]"
    and "set (logged st) \<subseteq> set (logged st1)"
  using assms
  by (auto simp: goroutine_alone slot_after_def split: sum.splits option.splits if_splits)

lemma goroutine_Inl:
  assumes "goroutine commits i run st = Inl a" and "i < length (found st)"
  shows "resolve_alone commits run = Inl a"
  using assms
  by (auto simp: goroutine_alone split: sum.splits option.splits if_splits)

lemma run_goroutines_abort:
  "run_goroutines commits runs sched st = Inl a \<Longrightarrow>
   \<forall>i\<in>set sched. i < length (found st) \<Longrightarrow>
   \<exists>i\<in>set sched. resolve_alone commits (runs ! i) = Inl a"
proof (induction sched arbitrary: st)
  case Nil
  then show ?case by simp
next
  case (Cons i sched)
  show ?case
  proof (cases "goroutine commits i (runs ! i) st")
    case (Inl b)
    then have "b = a" using Cons.prems(1) by simp
    then show ?thesis using goroutine_Inl [OF Inl] Cons.prems(2) by simp
  next
    case (Inr st1)
    then have "run_goroutines commits runs sched st1 = Inl a"
      using Cons.prems(1) by simp
    moreover have "\<forall>j\<in>set sched. j < length (found st1)"
      using Cons.prems(2) goroutine_Inr(2) [OF Inr] by simp
    ultimately show ?thesis using Cons.IH by auto
  qed
qed

lemma run_goroutines_return:
  "run_goroutines commits runs sched st = Inr st' \<Longrightarrow>
   (\<forall>i\<in>set sched. \<exists>out. resolve_alone commits (runs ! i) = Inr out) \<and>
   length (found st') = length (found st) \<and>
   (\<forall>j<length (found st). found st' ! j =
      (if j \<in> set sched then slot_after commits (runs ! j) (found st ! j) else found st ! j)) \<and>
   (\<forall>i\<in>set sched. resolve_alone commits (runs ! i) = Inr None \<longrightarrow>
      ''Failed to find revision for '' @ Revision (runs ! i) \<in> set (logged st')) \<and>
   set (logged st) \<subseteq> set (logged st')"
proof (induction sched arbitrary: st)
  case Nil
  then show ?case by simp
next
  case (Cons i sched)
  obtain st1 where st1: "goroutine commits i (runs ! i) st = Inr st1"
    and rest: "run_goroutines commits runs sched st1 = Inr st'"
    using Cons.prems by (auto split: sum.splits)
  note g = goroutine_Inr [OF st1]
  note ih = Cons.IH [OF rest]
  have len: "length (found st1) = length (found st)" using g(2) by simp
  have idem: "slot_after commits run (slot_after commits run old) = slot_after commits run old"
    for run old
    by (auto simp: slot_after_def split: sum.splits option.splits)
  have "\<forall>j<length (found st). found st' ! j =
      (if j \<in> set (i # sched) then slot_after commits (runs ! j) (found st ! j)
       else found st ! j)"
  proof (intro allI impI)
    fix j assume j: "j < length (found st)"
    then have "found st' ! j =
      (if j \<in> set sched then slot_after commits (runs ! j) (found st1 ! j) else found st1 ! j)"
      using ih len by simp
    moreover have "found st1 ! j =
      (if j = i then slot_after commits (runs ! i) (found st ! i) else found st ! j)"
      using g(2) j by (simp add: nth_list_update)
    ultimately show "found st' ! j =
      (if j \<in> set (i # sched) then slot_after commits (runs ! j) (found st ! j)
       else found st ! j)"
      by (auto simp: idem)
  qed
  moreover have "\<forall>k\<in>set (i # sched). resolve_alone commits (runs ! k) = Inr None \<longrightarrow>
      ''Failed to find revision for '' @ Revision (runs ! k) \<in> set (logged st')"
    using g(3) ih by auto
  moreover have "set (logged st) \<subseteq> set (logged st')"
    using g(4) ih by blast
  ultimately show ?case using g(1) ih len by simp
qed

lemma schedule_set: "schedule n sched \<Longrightarrow> set sched = {0..<n}"
  unfolding schedule_def by (metis mset_eq_setD set_upt)

lemma run_goroutines_members:
  "run_goroutines commits runs sched st = Inr st' \<Longrightarrow>
   \<forall>c. Some c \<in> set (found st) \<longrightarrow> c \<in> set commits \<Longrightarrow>
   Some c \<in> set (found st') \<Longrightarrow> c \<in> set commits"
proof (induction sched arbitrary: st)
  case Nil
  then show ?case by simp
next
  case (Cons i sched)
  obtain st1 where st1: "goroutine commits i (runs ! i) st = Inr st1"
    and rest: "run_goroutines commits runs sched st1 = Inr st'"
    using Cons.prems(1) by (auto split: sum.splits)
  have "\<forall>c. Some c \<in> set (found st1) \<longrightarrow> c \<in> set commits"
  proof (intro allI impI)
    fix d assume "Some d \<in> set (found st1)"
    then have "Some d \<in> insert (slot_after commits (runs ! i) (found st ! i)) (set (found st))"
      using goroutine_Inr(2) [OF st1] set_update_subset_insert by fastforce
    moreover have "slot_after commits (runs ! i) (found st ! i) = Some d \<Longrightarrow> d \<in> set commits"
    proof (cases "i < length (found st)")
      case True
      assume "slot_after commits (runs ! i) (found st ! i) = Some d"
      then show ?thesis
        using nth_mem [OF True] Cons.prems(2) resolve_alone_mem [of commits "runs ! i" d]
        by (auto simp: slot_after_def split: sum.splits option.splits)
    next
      case False
      assume "slot_after commits (runs ! i) (found st ! i) = Some d"
      have "found st1 = found st"
        using goroutine_Inr(2) [OF st1] False by (simp add: list_update_beyond)
      then show ?thesis using \<open>Some d \<in> set (found st1)\<close> Cons.prems(2) by simp
    qed
    ultimately show "d \<in> set commits" using Cons.prems(2) by auto
  qed
  then show ?case using Cons.IH [OF rest _ Cons.prems(3)] by blast
qed

lemma goroutine_no_panic:
  "i < length (found st) \<Longrightarrow> goroutine commits i run st \<noteq> Inl PanicIndexOutOfRange"
  using resolve_alone_no_panic [of commits run]
  by (auto simp: goroutine_alone split: sum.splits option.splits)

section \<open>Decoding the revision, and the whole of getCommitForRuns\<close>

lemma fromHexChar_digits:
  "c \<in> set ''0123456789abcdefABCDEF'' \<Longrightarrow> fromHexChar c \<noteq> None"
  by (auto simp: fromHexChar_def)

lemma hex_DecodeString_ok:
  "\<forall>c\<in>set s. fromHexChar c \<noteq> None \<Longrightarrow> even (length s) \<Longrightarrow>
   \<exists>bs. hex_DecodeString s = Inr bs \<and> 2 * length bs = length s"
proof (induction s rule: hex_DecodeString.induct)
  case 1
  then show ?case by simp
next
  case (2 p)
  then show ?case by simp
next
  case (3 p q rest)
  obtain a b where ab: "fromHexChar p = Some a" "fromHexChar q = Some b"
    using "3.prems"(1) by auto
  have "\<exists>bs. hex_DecodeString rest = Inr bs \<and> 2 * length bs = length rest"
    using "3.IH" [OF ab] "3.prems" by simp
  then show ?case using ab by auto
qed

lemma hex_DecodeString_Inr:
  "hex_DecodeString s = Inr bs \<Longrightarrow>
   length s = 2 * length bs \<and> (\<forall>c\<in>set s. fromHexChar c \<noteq> None)"
  by (induction s arbitrary: bs rule: hex_DecodeString.induct)
     (auto split: option.splits sum.splits)

lemma resolve_alone_decode_error:
  "hex_DecodeString (Revision run) = Inl e \<Longrightarrow> resolve_alone commits run = Inl (Fatal e)"
  by (simp add: resolve_alone_def goroutine_def)

lemma resolve_alone_wrong_length:
  "hex_DecodeString (Revision run) = Inr bs \<Longrightarrow> length bs \<noteq> 5 \<Longrightarrow>
   resolve_alone commits run = Inl (FatalHashLength (length bs))"
  by (simp add: resolve_alone_def goroutine_def)

lemma resolve_alone_well_formed:
  "hex_DecodeString (Revision run) = Inr bs \<Longrightarrow> length bs = 5 \<Longrightarrow>
   resolve_alone commits run =
     Inr (if findHash commits bs = - 1 then None
          else Some (commits ! nat (findHash commits bs)))"
  by (simp add: resolve_alone_def goroutine_def Let_def findHash_index)

lemma resolve_alone_abort_kinds:
  "resolve_alone commits run = Inl a \<Longrightarrow> (\<exists>e. a = Fatal e) \<or> (\<exists>n. a = FatalHashLength n)"
  by (auto simp: resolve_alone_def goroutine_def Let_def findHash_index
           split: sum.splits if_splits)

lemma getCommitForRuns_cases:
  assumes "schedule (length runs) sched"
    and "repo_CommitObjects env r = Inr (commits, EOF)"
  shows "case getCommitForRuns env sched (Some r) runs of
           Inl a \<Rightarrow> \<exists>i<length runs. resolve_alone (build commits) (runs ! i) = Inl a
         | Inr st \<Rightarrow>
             length (found st) = length runs \<and>
             (\<forall>i<length runs. resolve_alone (build commits) (runs ! i) = Inr (found st ! i)) \<and>
             (\<forall>i<length runs. resolve_alone (build commits) (runs ! i) = Inr None \<longrightarrow>
                ''Failed to find revision for '' @ Revision (runs ! i) \<in> set (logged st))"
proof -
  let ?st0 = "\<lparr>found = replicate (length runs) None,
               logged = [''Gathering commits'', ''Sorting commits'', ''Matching commits'']\<rparr>"
  have eq: "getCommitForRuns env sched (Some r) runs
              = run_goroutines (build commits) runs sched ?st0"
    using assms(2) by (simp add: getCommitForRuns_def)
  have set: "set sched = {0..<length runs}" using assms(1) by (rule schedule_set)
  show ?thesis
  proof (cases "run_goroutines (build commits) runs sched ?st0")
    case (Inl a)
    have "\<forall>i\<in>set sched. i < length (found ?st0)" using set by simp
    from run_goroutines_abort [OF Inl this] show ?thesis
      using eq Inl set by auto
  next
    case (Inr st)
    note ret = run_goroutines_return [OF Inr]
    have len: "length (found st) = length runs" using ret by simp
    have slots: "resolve_alone (build commits) (runs ! i) = Inr (found st ! i)"
      if "i < length runs" for i
    proof -
      have mem: "i \<in> set sched" using set that by simp
      then obtain out where out: "resolve_alone (build commits) (runs ! i) = Inr out"
        using ret by blast
      have "found st ! i = slot_after (build commits) (runs ! i) None"
        using ret mem that by simp
      then show ?thesis using out by (cases out) (simp_all add: slot_after_def)
    qed
    have logs: "''Failed to find revision for '' @ Revision (runs ! i) \<in> set (logged st)"
      if "i < length runs" "resolve_alone (build commits) (runs ! i) = Inr None" for i
      using ret set that by simp
    show ?thesis using eq Inr len slots logs by simp
  qed
qed

lemma goroutine_decode_error:
  "hex_DecodeString (Revision run) = Inl e \<Longrightarrow> goroutine commits i run st = Inl (Fatal e)"
  by (simp add: goroutine_def)

lemma goroutine_wrong_length:
  "hex_DecodeString (Revision run) = Inr bs \<Longrightarrow> length bs \<noteq> 5 \<Longrightarrow>
   goroutine commits i run st = Inl (FatalHashLength (length bs))"
  by (simp add: goroutine_def)

lemma ten_hex_digits_decode:
  assumes "length s = 10" and "set s \<subseteq> set ''0123456789abcdefABCDEF''"
  shows "\<exists>bs. hex_DecodeString s = Inr bs \<and> length bs = 5"
proof -
  have "\<forall>c\<in>set s. fromHexChar c \<noteq> None"
    using assms(2) fromHexChar_digits by blast
  moreover have "even (length s)" using assms(1) by simp
  ultimately obtain bs where "hex_DecodeString s = Inr bs" "2 * length bs = length s"
    using hex_DecodeString_ok by blast
  then show ?thesis using assms(1) by auto
qed

lemma resolve_alone_ten_hex_digits:
  assumes "length (Revision run) = 10"
    and "set (Revision run) \<subseteq> set ''0123456789abcdefABCDEF''"
  shows "\<exists>out. resolve_alone commits run = Inr out"
  using ten_hex_digits_decode [OF assms] resolve_alone_well_formed by blast

section \<open>Termination of findHash\<close>

text \<open>
  \<open>findHash_rel\<close> is the call relation of the definition: it relates the arguments of a
  recursive call to those of the call that makes it. \<open>findHash_dom\<close> holds of the
  arguments from which every chain of calls is finite.
\<close>

lemma findHash_rel_shorter: "findHash_rel x y \<Longrightarrow> length (fst x) < length (fst y)"
  by (erule findHash_rel.cases) auto

lemma findHash_rel_wf: "wfp findHash_rel"
proof -
  have "{(x, y). findHash_rel x y} \<subseteq> measure (\<lambda>x. length (fst x))"
    using findHash_rel_shorter by auto
  then have "wf {(x, y). findHash_rel x y}"
    by (rule wf_subset [OF wf_measure])
  then show ?thesis by (simp add: wfp_def)
qed

lemma findHash_domain: "findHash_dom (commits, shortHash)"
  using findHash_rel_wf by (rule accp_wfpD)

text \<open>
  C10. \<open>findHash\<close> terminates on every input: every argument pair is in the domain of
  the recursion, and every recursive call is on a strictly shorter slice. For a
  non-empty slice, \<open>mid\<close> is a valid position, \<open>commits[:mid]\<close> is shorter than
  \<open>commits\<close>, \<open>commits[mid+1:]\<close> has length \<open>length - mid - 1\<close>, and these two slices
  are what the two recursive calls are made on.
\<close>

theorem findHash_terminates:
  "findHash_dom (commits, shortHash) \<and>
   (\<forall>x y. findHash_rel x y \<longrightarrow> length (fst x) < length (fst y)) \<and>
   (commits \<noteq> [] \<longrightarrow>
      length commits div 2 < length commits \<and>
      length (take (length commits div 2) commits) < length commits \<and>
      length (drop (length commits div 2 + 1) commits)
        = length commits - length commits div 2 - 1 \<and>
      length (drop (length commits div 2 + 1) commits) < length commits \<and>
      (bytes_Compare (suffix5 (commits ! (length commits div 2))) shortHash = 1 \<longrightarrow>
         findHash commits shortHash
           = findHash (take (length commits div 2) commits) shortHash) \<and>
      (bytes_Compare (suffix5 (commits ! (length commits div 2))) shortHash = - 1 \<longrightarrow>
         findHash commits shortHash
           = findHash (drop (length commits div 2 + 1) commits) shortHash
               + int (length commits div 2) + 1))"
  using findHash_domain findHash_rel_shorter findHash_lower findHash_upper by auto

theorem findHash_terminates_witness:
  "[\<lparr>Hash = replicate 20 0, Message = []\<rparr>, \<lparr>Hash = replicate 20 1, Message = []\<rparr>] \<noteq> [] \<and>
   bytes_Compare (suffix5 \<lparr>Hash = replicate 20 1, Message = []\<rparr>) [0, 0, 0, 0, 1] = 1 \<and>
   findHash_dom ([\<lparr>Hash = replicate 20 0, Message = []\<rparr>,
                  \<lparr>Hash = replicate 20 1, Message = []\<rparr>], [0, 0, 0, 0, 1]) \<and>
   length (take 1 [\<lparr>Hash = replicate 20 (0::byte), Message = []\<rparr>,
                   \<lparr>Hash = replicate 20 1, Message = []\<rparr>]) < 2 \<and>
   findHash [\<lparr>Hash = replicate 20 0, Message = []\<rparr>,
             \<lparr>Hash = replicate 20 1, Message = []\<rparr>] [0, 0, 0, 0, 1]
     = findHash (take 1 [\<lparr>Hash = replicate 20 0, Message = []\<rparr>,
                         \<lparr>Hash = replicate 20 1, Message = []\<rparr>]) [0, 0, 0, 0, 1]"
proof -
  have cmp: "bytes_Compare (suffix5 \<lparr>Hash = replicate 20 1, Message = []\<rparr>) [0, 0, 0, 0, 1] = 1"
    by code_simp
  show ?thesis
    using cmp findHash_terminates [of "[\<lparr>Hash = replicate 20 0, Message = []\<rparr>,
      \<lparr>Hash = replicate 20 1, Message = []\<rparr>]" "[0, 0, 0, 0, 1]"]
    by simp
qed

section \<open>Bounds of the lookup result\<close>

text \<open>
  C9. \<open>findHash\<close> returns \<open>-1\<close> or a position of the slice, between \<open>0\<close> and
  \<open>length - 1\<close>. So after a result other than \<open>-1\<close> the access \<open>commits[idx]\<close> is
  within bounds and yields an element of the slice; the goroutine body never panics on
  an index as long as its own slot exists; and every entry of the returned \<open>found\<close>
  that is not nil is an element of the built index.
\<close>

theorem findHash_result_in_bounds:
  "(findHash commits shortHash = - 1 \<or>
      (0 \<le> findHash commits shortHash \<and> findHash commits shortHash \<le> int (length commits) - 1)) \<and>
   (findHash commits shortHash \<noteq> - 1 \<longrightarrow>
      nat (findHash commits shortHash) < length commits \<and>
      commits ! nat (findHash commits shortHash) \<in> set commits) \<and>
   (i < length (found st) \<longrightarrow> goroutine commits i run st \<noteq> Inl PanicIndexOutOfRange) \<and>
   (\<forall>r cs st' c.
      repo_CommitObjects env r = Inr (cs, EOF) \<and>
      getCommitForRuns env sched (Some r) runs = Inr st' \<and>
      Some c \<in> set (found st') \<longrightarrow> c \<in> set (build cs))"
proof -
  have a: "findHash commits shortHash = - 1 \<or>
      (0 \<le> findHash commits shortHash \<and> findHash commits shortHash \<le> int (length commits) - 1)"
    using findHash_range [of commits shortHash] by auto
  have b: "findHash commits shortHash \<noteq> - 1 \<longrightarrow>
      nat (findHash commits shortHash) < length commits \<and>
      commits ! nat (findHash commits shortHash) \<in> set commits"
    using findHash_range [of commits shortHash] by auto
  have c: "i < length (found st) \<longrightarrow> goroutine commits i run st \<noteq> Inl PanicIndexOutOfRange"
    using goroutine_no_panic by blast
  have d: "c \<in> set (build cs)"
    if "repo_CommitObjects env r = Inr (cs, EOF)"
      and "getCommitForRuns env sched (Some r) runs = Inr st'"
      and "Some c \<in> set (found st')" for r cs st' c
  proof -
    have "run_goroutines (build cs) runs sched
            \<lparr>found = replicate (length runs) None,
             logged = [''Gathering commits'', ''Sorting commits'', ''Matching commits'']\<rparr> = Inr st'"
      using that(1,2) by (simp add: getCommitForRuns_def)
    then show ?thesis
      using run_goroutines_members [of "build cs" runs sched _ st' c] that(3) by simp
  qed
  show ?thesis using a b c d by blast
qed

theorem findHash_result_in_bounds_witness:
  "findHash [\<lparr>Hash = replicate 20 0, Message = []\<rparr>] [0, 0, 0, 0, 0] \<noteq> - 1 \<and>
   nat (findHash [\<lparr>Hash = replicate 20 0, Message = []\<rparr>] [0, 0, 0, 0, 0]) < 1 \<and>
   goroutine [\<lparr>Hash = replicate 20 0, Message = []\<rparr>] 0 \<lparr>Revision = ''0000000000''\<rparr>
       \<lparr>found = [None], logged = []\<rparr> \<noteq> Inl PanicIndexOutOfRange \<and>
   getCommitForRuns
       \<lparr>git_Open = Inr 7, git_Clone = Inr 7, repo_Worktree = Inr, wt_Pull = Map.empty,
        repo_CommitObjects = (\<lambda>r. Inr ([\<lparr>Hash = replicate 20 0, Message = []\<rparr>], EOF))\<rparr>
       [0] (Some 7) [\<lparr>Revision = ''0000000000''\<rparr>]
     = Inr \<lparr>found = [Some \<lparr>Hash = replicate 20 0, Message = []\<rparr>],
            logged = [''Gathering commits'', ''Sorting commits'', ''Matching commits'',
                      ''Found commit for 0000000000'']\<rparr> \<and>
   \<lparr>Hash = replicate 20 0, Message = []\<rparr> \<in> set (build [\<lparr>Hash = replicate 20 0, Message = []\<rparr>])"
proof -
  let ?c = "\<lparr>Hash = replicate 20 (0::byte), Message = []\<rparr>"
  let ?run = "\<lparr>Revision = ''0000000000''\<rparr>"
  let ?env = "\<lparr>git_Open = Inr 7, git_Clone = Inr 7, repo_Worktree = Inr, wt_Pull = Map.empty,
        repo_CommitObjects = (\<lambda>r. Inr ([?c], EOF))\<rparr>"
  let ?st = "\<lparr>found = [Some ?c],
            logged = [''Gathering commits'', ''Sorting commits'', ''Matching commits'',
                      ''Found commit for 0000000000'']\<rparr>"
  note t = findHash_result_in_bounds [of "[?c]" "[0, 0, 0, 0, 0]" 0
      "\<lparr>found = [None], logged = []\<rparr>" ?run ?env "[0]" "[?run]"]
  have h1: "findHash [?c] [0, 0, 0, 0, 0] \<noteq> - 1" by code_simp
  have h2: "repo_CommitObjects ?env 7 = Inr ([?c], EOF)" by simp
  have h3: "getCommitForRuns ?env [0] (Some 7) [?run] = Inr ?st" by code_simp
  have h4: "Some ?c \<in> set (found ?st)" by simp
  have c1: "nat (findHash [?c] [0, 0, 0, 0, 0]) < 1" using t h1 by simp
  have c2: "goroutine [?c] 0 ?run \<lparr>found = [None], logged = []\<rparr> \<noteq> Inl PanicIndexOutOfRange"
    using t by simp
  have c3: "?c \<in> set (build [?c])" using t h2 h3 h4 by blast
  show ?thesis using h1 h3 c1 c2 c3 by blast
qed

section \<open>A miss that descends into the upper half\<close>

text \<open>
  C1. A suffix that no commit ends with should give \<open>-1\<close>. When the search goes into
  the upper half and runs out of commits there, the \<open>-1\<close> of the empty slice has
  \<open>mid + 1\<close> added to it and comes back as \<open>mid\<close>. On the index of the single commit
  of hash \<open>00...00\<close> the suffix \<open>0000000001\<close> is reported found at position \<open>0\<close>, and
  the record of that revision is matched to that commit.
\<close>

theorem findHash_miss_in_upper_half:
  "suffix5 \<lparr>Hash = replicate 20 0, Message = []\<rparr> \<noteq> [0, 0, 0, 0, 1] \<and>
   findHash [\<lparr>Hash = replicate 20 0, Message = []\<rparr>] [0, 0, 0, 0, 1] = 0 \<and>
   hex_DecodeString ''0000000001'' = Inr [0, 0, 0, 0, 1] \<and>
   resolve_alone [\<lparr>Hash = replicate 20 0, Message = []\<rparr>] \<lparr>Revision = ''0000000001''\<rparr>
     = Inr (Some \<lparr>Hash = replicate 20 0, Message = []\<rparr>)"
  by code_simp

section \<open>The index is sorted by full hash\<close>

text \<open>
  C5. In the built index every commit's hash is at most its successor's, in the
  lexicographic order on byte lists with bytes compared as unsigned numbers: the order
  \<open>\<le>\<close> on \<open>byte list\<close>, which is also what \<open>bytes.Compare\<close> and \<open>byHash.Less\<close>
  report for the pair. The index holds exactly the enumerated commits. When the hashes
  of the commits are distinct, any arrangement of them that is sorted by hash is the
  built index, so the index does not depend on how the sort is carried out; nor does it
  depend on the order in which the commits were enumerated.
\<close>

theorem build_sorted_by_hash:
  "(\<forall>i. Suc i < length (build commits) \<longrightarrow>
       Hash (build commits ! i) \<le> Hash (build commits ! Suc i) \<and>
       bytes_Compare (Hash (build commits ! i)) (Hash (build commits ! Suc i)) \<noteq> 1 \<and>
       \<not> byHash_Less (build commits ! Suc i) (build commits ! i)) \<and>
   mset (build commits) = mset commits \<and>
   (\<forall>idx. mset idx = mset commits \<and> sorted (map Hash idx) \<and> distinct (map Hash commits)
       \<longrightarrow> idx = build commits) \<and>
   (\<forall>commits'. mset commits' = mset commits \<and> distinct (map Hash commits)
       \<longrightarrow> build commits' = build commits)"
proof -
  have adj: "Hash (build commits ! i) \<le> Hash (build commits ! Suc i)"
    if "Suc i < length (build commits)" for i
    using sorted_build [of commits] that
    by (simp add: sorted_iff_nth_Suc)
  have a: "\<forall>i. Suc i < length (build commits) \<longrightarrow>
       Hash (build commits ! i) \<le> Hash (build commits ! Suc i) \<and>
       bytes_Compare (Hash (build commits ! i)) (Hash (build commits ! Suc i)) \<noteq> 1 \<and>
       \<not> byHash_Less (build commits ! Suc i) (build commits ! i)"
    using adj by (auto simp: bytes_Compare_greater byHash_Less_iff not_less [symmetric])
  have b: "\<forall>idx. mset idx = mset commits \<and> sorted (map Hash idx) \<and> distinct (map Hash commits)
       \<longrightarrow> idx = build commits"
    using build_unique by blast
  have c: "\<forall>commits'. mset commits' = mset commits \<and> distinct (map Hash commits)
       \<longrightarrow> build commits' = build commits"
  proof (intro allI impI)
    fix commits' assume h: "mset commits' = mset commits \<and> distinct (map Hash commits)"
    have "mset (build commits') = mset commits" using h by (simp add: mset_build)
    then show "build commits' = build commits"
      using build_unique [of "build commits'" commits] sorted_build [of commits'] h by simp
  qed
  show ?thesis using a b c mset_build by blast
qed

theorem build_sorted_by_hash_witness:
  "Suc 0 < length (build [\<lparr>Hash = 1 # replicate 14 0 @ [0, 0, 0, 0, 5], Message = []\<rparr>,
                          \<lparr>Hash = 0 # replicate 14 0 @ [0, 0, 0, 0, 9], Message = []\<rparr>]) \<and>
   Hash (build [\<lparr>Hash = 1 # replicate 14 0 @ [0, 0, 0, 0, 5], Message = []\<rparr>,
                \<lparr>Hash = 0 # replicate 14 0 @ [0, 0, 0, 0, 9], Message = []\<rparr>] ! 0)
     \<le> Hash (build [\<lparr>Hash = 1 # replicate 14 0 @ [0, 0, 0, 0, 5], Message = []\<rparr>,
                   \<lparr>Hash = 0 # replicate 14 0 @ [0, 0, 0, 0, 9], Message = []\<rparr>] ! Suc 0) \<and>
   mset [\<lparr>Hash = 0 # replicate 14 0 @ [0, 0, 0, 0, 9], Message = []\<rparr>,
         \<lparr>Hash = 1 # replicate 14 0 @ [0, 0, 0, 0, 5], Message = []\<rparr>]
     = mset [\<lparr>Hash = 1 # replicate 14 0 @ [0, 0, 0, 0, 5], Message = []\<rparr>,
             \<lparr>Hash = 0 # replicate 14 0 @ [0, 0, 0, 0, 9], Message = []\<rparr>] \<and>
   distinct (map Hash [\<lparr>Hash = 1 # replicate 14 0 @ [0, 0, 0, 0, 5], Message = []\<rparr>,
                       \<lparr>Hash = 0 # replicate 14 0 @ [0, 0, 0, 0, 9], Message = []\<rparr>]) \<and>
   build [\<lparr>Hash = 0 # replicate 14 0 @ [0, 0, 0, 0, 9], Message = []\<rparr>,
          \<lparr>Hash = 1 # replicate 14 0 @ [0, 0, 0, 0, 5], Message = []\<rparr>]
     = build [\<lparr>Hash = 1 # replicate 14 0 @ [0, 0, 0, 0, 5], Message = []\<rparr>,
              \<lparr>Hash = 0 # replicate 14 0 @ [0, 0, 0, 0, 9], Message = []\<rparr>]"
proof -
  let ?A = "\<lparr>Hash = 0 # replicate 14 0 @ [0, 0, 0, 0, 9], Message = []\<rparr> :: commit"
  let ?B = "\<lparr>Hash = 1 # replicate 14 0 @ [0, 0, 0, 0, 5], Message = []\<rparr> :: commit"
  note t = build_sorted_by_hash [of "[?B, ?A]"]
  have h1: "Suc 0 < length (build [?B, ?A])" by code_simp
  have h2: "mset [?A, ?B] = mset [?B, ?A]" by simp
  have h3: "distinct (map Hash [?B, ?A])" by simp
  have c1: "Hash (build [?B, ?A] ! 0) \<le> Hash (build [?B, ?A] ! Suc 0)"
    using t h1 by blast
  have c2: "build [?A, ?B] = build [?B, ?A]"
    using t h2 h3 by blast
  show ?thesis using h1 h2 h3 c1 c2 by blast
qed

section \<open>Looking up the suffix of a commit of the index\<close>

text \<open>
  C3 as stated does not hold of the code. The index is sorted by full hash, and
  \<open>findHash\<close> compares last five bytes only.
  Of three commits whose hashes start with \<open>00\<close>, \<open>01\<close>, \<open>02\<close> and end with
  \<open>...09\<close>, \<open>...05\<close>, \<open>...01\<close>, the third is not found by its own suffix: the search
  compares \<open>...05\<close> and then \<open>...09\<close> with \<open>...01\<close>, goes left both times, and
  returns \<open>-1\<close>.
\<close>

theorem lookup_existing_suffix_counterexample:
  "\<lparr>Hash = 2 # replicate 14 0 @ [0, 0, 0, 0, 1], Message = []\<rparr>
     \<in> set [\<lparr>Hash = 2 # replicate 14 0 @ [0, 0, 0, 0, 1], Message = []\<rparr>,
            \<lparr>Hash = 0 # replicate 14 0 @ [0, 0, 0, 0, 9], Message = []\<rparr>,
            \<lparr>Hash = 1 # replicate 14 0 @ [0, 0, 0, 0, 5], Message = []\<rparr>] \<and>
   build [\<lparr>Hash = 2 # replicate 14 0 @ [0, 0, 0, 0, 1], Message = []\<rparr>,
          \<lparr>Hash = 0 # replicate 14 0 @ [0, 0, 0, 0, 9], Message = []\<rparr>,
          \<lparr>Hash = 1 # replicate 14 0 @ [0, 0, 0, 0, 5], Message = []\<rparr>]
     = [\<lparr>Hash = 0 # replicate 14 0 @ [0, 0, 0, 0, 9], Message = []\<rparr>,
        \<lparr>Hash = 1 # replicate 14 0 @ [0, 0, 0, 0, 5], Message = []\<rparr>,
        \<lparr>Hash = 2 # replicate 14 0 @ [0, 0, 0, 0, 1], Message = []\<rparr>] \<and>
   suffix5 \<lparr>Hash = 2 # replicate 14 0 @ [0, 0, 0, 0, 1], Message = []\<rparr> = [0, 0, 0, 0, 1] \<and>
   findHash
     (build [\<lparr>Hash = 2 # replicate 14 0 @ [0, 0, 0, 0, 1], Message = []\<rparr>,
             \<lparr>Hash = 0 # replicate 14 0 @ [0, 0, 0, 0, 9], Message = []\<rparr>,
             \<lparr>Hash = 1 # replicate 14 0 @ [0, 0, 0, 0, 5], Message = []\<rparr>])
     (suffix5 \<lparr>Hash = 2 # replicate 14 0 @ [0, 0, 0, 0, 1], Message = []\<rparr>) = - 1"
  by code_simp

text \<open>
  C3, amended. When the index, sorted by full hash, is also in ascending order of the
  last five bytes, looking up the last five bytes of a commit \<open>C\<close> of the index returns
  a position of the index whose commit ends with these five bytes; it is \<open>C\<close> itself
  when no other commit ends with them.
\<close>

theorem lookup_existing_suffix:
  assumes "sorted (map suffix5 (build commits))" and "C \<in> set commits"
  shows "0 \<le> findHash (build commits) (suffix5 C) \<and>
         findHash (build commits) (suffix5 C) < int (length (build commits)) \<and>
         suffix5 (build commits ! nat (findHash (build commits) (suffix5 C))) = suffix5 C \<and>
         build commits ! nat (findHash (build commits) (suffix5 C)) \<in> set commits \<and>
         ((\<forall>D\<in>set commits. suffix5 D = suffix5 C \<longrightarrow> D = C) \<longrightarrow>
            build commits ! nat (findHash (build commits) (suffix5 C)) = C)"
proof -
  have s: "set (build commits) = set commits"
    using mset_build [of commits] by (rule mset_eq_setD)
  then have "suffix5 C \<in> suffix5 ` set (build commits)" using assms(2) by simp
  from findHash_hit [OF assms(1) this]
  have hit: "0 \<le> findHash (build commits) (suffix5 C)"
    "findHash (build commits) (suffix5 C) < int (length (build commits))"
    "suffix5 (build commits ! nat (findHash (build commits) (suffix5 C))) = suffix5 C"
    by simp_all
  have "nat (findHash (build commits) (suffix5 C)) < length (build commits)"
    using hit(1,2) by simp
  then have mem: "build commits ! nat (findHash (build commits) (suffix5 C)) \<in> set commits"
    using s nth_mem by blast
  show ?thesis using hit mem by blast
qed

theorem lookup_existing_suffix_witness:
  "sorted (map suffix5 (build [\<lparr>Hash = 1 # replicate 14 0 @ [0, 0, 0, 0, 5], Message = []\<rparr>,
                                \<lparr>Hash = 0 # replicate 14 0 @ [0, 0, 0, 0, 1], Message = []\<rparr>])) \<and>
   \<lparr>Hash = 1 # replicate 14 0 @ [0, 0, 0, 0, 5], Message = []\<rparr>
     \<in> set [\<lparr>Hash = 1 # replicate 14 0 @ [0, 0, 0, 0, 5], Message = []\<rparr>,
            \<lparr>Hash = 0 # replicate 14 0 @ [0, 0, 0, 0, 1], Message = []\<rparr>] \<and>
   findHash (build [\<lparr>Hash = 1 # replicate 14 0 @ [0, 0, 0, 0, 5], Message = []\<rparr>,
                    \<lparr>Hash = 0 # replicate 14 0 @ [0, 0, 0, 0, 1], Message = []\<rparr>])
            (suffix5 \<lparr>Hash = 1 # replicate 14 0 @ [0, 0, 0, 0, 5], Message = []\<rparr>) = 1 \<and>
   build [\<lparr>Hash = 1 # replicate 14 0 @ [0, 0, 0, 0, 5], Message = []\<rparr>,
          \<lparr>Hash = 0 # replicate 14 0 @ [0, 0, 0, 0, 1], Message = []\<rparr>]
     ! nat (findHash (build [\<lparr>Hash = 1 # replicate 14 0 @ [0, 0, 0, 0, 5], Message = []\<rparr>,
                    \<lparr>Hash = 0 # replicate 14 0 @ [0, 0, 0, 0, 1], Message = []\<rparr>])
            (suffix5 \<lparr>Hash = 1 # replicate 14 0 @ [0, 0, 0, 0, 5], Message = []\<rparr>))
     = \<lparr>Hash = 1 # replicate 14 0 @ [0, 0, 0, 0, 5], Message = []\<rparr>"
proof -
  let ?A = "\<lparr>Hash = 0 # replicate 14 0 @ [0, 0, 0, 0, 1], Message = []\<rparr> :: commit"
  let ?B = "\<lparr>Hash = 1 # replicate 14 0 @ [0, 0, 0, 0, 5], Message = []\<rparr> :: commit"
  have h1: "sorted (map suffix5 (build [?B, ?A]))" by code_simp
  have h2: "?B \<in> set [?B, ?A]" by simp
  have h3: "\<forall>D\<in>set [?B, ?A]. suffix5 D = suffix5 ?B \<longrightarrow> D = ?B" by code_simp
  have v: "findHash (build [?B, ?A]) (suffix5 ?B) = 1" by code_simp
  have "build [?B, ?A] ! nat (findHash (build [?B, ?A]) (suffix5 ?B)) = ?B"
    using lookup_existing_suffix [OF h1 h2] h3 by blast
  then show ?thesis using h1 h2 v by blast
qed

section \<open>Results keep the positions of their records\<close>

text \<open>
  C4. Let the goroutines take effect in any order that starts each of them once, on an
  index that was enumerated without error. If \<open>getCommitForRuns\<close> returns, \<open>found\<close> has
  the length of \<open>runs\<close>, and slot \<open>i\<close> holds what resolving record \<open>i\<close> by itself gives:
  the matched commit, or nil. It returns whenever every record resolves to one of these
  two; an abort is the abort of one of the records. Two orders that both return give
  the same \<open>found\<close>. With no records the result is the empty slice.
\<close>

theorem getCommitForRuns_keeps_positions:
  assumes "schedule (length runs) sched"
    and "repo_CommitObjects env r = Inr (commits, EOF)"
  shows "(case getCommitForRuns env sched (Some r) runs of
            Inl a \<Rightarrow> \<exists>i<length runs. resolve_alone (build commits) (runs ! i) = Inl a
          | Inr st \<Rightarrow>
              length (found st) = length runs \<and>
              (\<forall>i<length runs. resolve_alone (build commits) (runs ! i) = Inr (found st ! i))) \<and>
         ((\<forall>run\<in>set runs. \<exists>out. resolve_alone (build commits) run = Inr out) \<longrightarrow>
            (\<exists>st. getCommitForRuns env sched (Some r) runs = Inr st)) \<and>
         (\<forall>sched' st st'.
            schedule (length runs) sched' \<and>
            getCommitForRuns env sched (Some r) runs = Inr st \<and>
            getCommitForRuns env sched' (Some r) runs = Inr st' \<longrightarrow> found st' = found st) \<and>
         (runs = [] \<longrightarrow>
            (\<exists>lg. getCommitForRuns env sched (Some r) runs = Inr \<lparr>found = [], logged = lg\<rparr>))"
proof -
  note c = getCommitForRuns_cases [OF assms]
  have a: "case getCommitForRuns env sched (Some r) runs of
            Inl a \<Rightarrow> \<exists>i<length runs. resolve_alone (build commits) (runs ! i) = Inl a
          | Inr st \<Rightarrow>
              length (found st) = length runs \<and>
              (\<forall>i<length runs. resolve_alone (build commits) (runs ! i) = Inr (found st ! i))"
    using c by (simp split: sum.splits)
  have b: "\<exists>st. getCommitForRuns env sched (Some r) runs = Inr st"
    if "\<forall>run\<in>set runs. \<exists>out. resolve_alone (build commits) run = Inr out"
  proof (cases "getCommitForRuns env sched (Some r) runs")
    case (Inl x)
    then obtain i where "i < length runs" "resolve_alone (build commits) (runs ! i) = Inl x"
      using a by auto
    then show ?thesis using that nth_mem by fastforce
  next
    case (Inr st)
    then show ?thesis by blast
  qed
  have d: "found st' = found st"
    if "schedule (length runs) sched'"
      and "getCommitForRuns env sched (Some r) runs = Inr st"
      and "getCommitForRuns env sched' (Some r) runs = Inr st'" for sched' st st'
  proof (rule nth_equalityI)
    note c' = getCommitForRuns_cases [OF that(1) assms(2)]
    show "length (found st') = length (found st)" using c c' that(2,3) by simp
    fix i assume "i < length (found st')"
    then have i: "i < length runs" using c' that(3) by simp
    have "resolve_alone (build commits) (runs ! i) = Inr (found st ! i)"
      using c that(2) i by simp
    moreover have "resolve_alone (build commits) (runs ! i) = Inr (found st' ! i)"
      using c' that(3) i by simp
    ultimately show "found st' ! i = found st ! i" by simp
  qed
  have e: "\<exists>lg. getCommitForRuns env sched (Some r) runs = Inr \<lparr>found = [], logged = lg\<rparr>"
    if "runs = []"
  proof -
    have "\<forall>run\<in>set runs. \<exists>out. resolve_alone (build commits) run = Inr out"
      using that by simp
    then obtain st where st: "getCommitForRuns env sched (Some r) runs = Inr st"
      using b by blast
    then have "found st = []" using a that by simp
    then have "st = \<lparr>found = [], logged = logged st\<rparr>" by simp
    then show ?thesis using st by metis
  qed
  show ?thesis using a b d e by blast
qed


theorem getCommitForRuns_keeps_positions_witness:
  "schedule (length [\<lparr>Revision = ''0000000005''\<rparr>, \<lparr>Revision = ''0000000000''\<rparr>,
        \<lparr>Revision = ''0000000001''\<rparr>]) [2, 0, 1] \<and>
   schedule (length [\<lparr>Revision = ''0000000005''\<rparr>, \<lparr>Revision = ''0000000000''\<rparr>,
        \<lparr>Revision = ''0000000001''\<rparr>]) [0, 1, 2] \<and>
   repo_CommitObjects \<lparr>git_Open = Inr 7, git_Clone = Inr 7, repo_Worktree = Inr, wt_Pull = Map.empty,
        repo_CommitObjects = (\<lambda>r. Inr ([\<lparr>Hash = 1 # replicate 14 0 @ [0, 0, 0, 0, 5], Message = []\<rparr>,
                                          \<lparr>Hash = 0 # replicate 14 0 @ [0, 0, 0, 0, 1], Message = []\<rparr>], EOF))\<rparr> 7
     = Inr ([\<lparr>Hash = 1 # replicate 14 0 @ [0, 0, 0, 0, 5], Message = []\<rparr>,
             \<lparr>Hash = 0 # replicate 14 0 @ [0, 0, 0, 0, 1], Message = []\<rparr>], EOF) \<and>
   found (projr (getCommitForRuns \<lparr>git_Open = Inr 7, git_Clone = Inr 7, repo_Worktree = Inr, wt_Pull = Map.empty,
        repo_CommitObjects = (\<lambda>r. Inr ([\<lparr>Hash = 1 # replicate 14 0 @ [0, 0, 0, 0, 5], Message = []\<rparr>,
                                          \<lparr>Hash = 0 # replicate 14 0 @ [0, 0, 0, 0, 1], Message = []\<rparr>], EOF))\<rparr> [2, 0, 1] (Some 7) [\<lparr>Revision = ''0000000005''\<rparr>, \<lparr>Revision = ''0000000000''\<rparr>,
        \<lparr>Revision = ''0000000001''\<rparr>]))
     = [Some \<lparr>Hash = 1 # replicate 14 0 @ [0, 0, 0, 0, 5], Message = []\<rparr>, None,
        Some \<lparr>Hash = 0 # replicate 14 0 @ [0, 0, 0, 0, 1], Message = []\<rparr>] \<and>
   found (projr (getCommitForRuns \<lparr>git_Open = Inr 7, git_Clone = Inr 7, repo_Worktree = Inr, wt_Pull = Map.empty,
        repo_CommitObjects = (\<lambda>r. Inr ([\<lparr>Hash = 1 # replicate 14 0 @ [0, 0, 0, 0, 5], Message = []\<rparr>,
                                          \<lparr>Hash = 0 # replicate 14 0 @ [0, 0, 0, 0, 1], Message = []\<rparr>], EOF))\<rparr> [0, 1, 2] (Some 7) [\<lparr>Revision = ''0000000005''\<rparr>, \<lparr>Revision = ''0000000000''\<rparr>,
        \<lparr>Revision = ''0000000001''\<rparr>]))
     = found (projr (getCommitForRuns \<lparr>git_Open = Inr 7, git_Clone = Inr 7, repo_Worktree = Inr, wt_Pull = Map.empty,
        repo_CommitObjects = (\<lambda>r. Inr ([\<lparr>Hash = 1 # replicate 14 0 @ [0, 0, 0, 0, 5], Message = []\<rparr>,
                                          \<lparr>Hash = 0 # replicate 14 0 @ [0, 0, 0, 0, 1], Message = []\<rparr>], EOF))\<rparr> [2, 0, 1] (Some 7) [\<lparr>Revision = ''0000000005''\<rparr>, \<lparr>Revision = ''0000000000''\<rparr>,
        \<lparr>Revision = ''0000000001''\<rparr>])) \<and>
   resolve_alone (build [\<lparr>Hash = 1 # replicate 14 0 @ [0, 0, 0, 0, 5], Message = []\<rparr>,
                         \<lparr>Hash = 0 # replicate 14 0 @ [0, 0, 0, 0, 1], Message = []\<rparr>]) \<lparr>Revision = ''0000000000''\<rparr> = Inr None"
proof -
  let ?A = "\<lparr>Hash = 0 # replicate 14 0 @ [0, 0, 0, 0, 1], Message = []\<rparr> :: commit"
  let ?B = "\<lparr>Hash = 1 # replicate 14 0 @ [0, 0, 0, 0, 5], Message = []\<rparr> :: commit"
  let ?runs = "[\<lparr>Revision = ''0000000005''\<rparr>, \<lparr>Revision = ''0000000000''\<rparr>,
        \<lparr>Revision = ''0000000001''\<rparr>]"
  let ?env = "\<lparr>git_Open = Inr 7, git_Clone = Inr 7, repo_Worktree = Inr, wt_Pull = Map.empty,
        repo_CommitObjects = (\<lambda>r. Inr ([\<lparr>Hash = 1 # replicate 14 0 @ [0, 0, 0, 0, 5], Message = []\<rparr>,
                                          \<lparr>Hash = 0 # replicate 14 0 @ [0, 0, 0, 0, 1], Message = []\<rparr>], EOF))\<rparr>"
  have h1: "schedule (length ?runs) [2, 0, 1]" by code_simp
  have h1': "schedule (length ?runs) [0, 1, 2]" by code_simp
  have h2: "repo_CommitObjects ?env 7 = Inr ([?B, ?A], EOF)" by simp
  have v: "getCommitForRuns ?env [2, 0, 1] (Some 7) ?runs
      = Inr \<lparr>found = [Some ?B, None, Some ?A],
             logged = [''Gathering commits'', ''Sorting commits'', ''Matching commits'',
                       ''Found commit for 0000000001'', ''Found commit for 0000000005'',
                       ''Failed to find revision for 0000000000'']\<rparr>"
    by code_simp
  have v': "getCommitForRuns ?env [0, 1, 2] (Some 7) ?runs
      = Inr \<lparr>found = [Some ?B, None, Some ?A],
             logged = [''Gathering commits'', ''Sorting commits'', ''Matching commits'',
                       ''Found commit for 0000000005'',
                       ''Failed to find revision for 0000000000'',
                       ''Found commit for 0000000001'']\<rparr>"
    by code_simp
  note t = getCommitForRuns_keeps_positions [OF h1 h2]
  have slots: "\<forall>i<length ?runs. resolve_alone (build [?B, ?A]) (?runs ! i)
      = Inr ([Some ?B, None, Some ?A] ! i)"
    using t v by simp
  have c1: "resolve_alone (build [?B, ?A]) \<lparr>Revision = ''0000000000''\<rparr> = Inr None"
    using slots [rule_format, of 1] by simp
  have c2: "found (projr (getCommitForRuns ?env [0, 1, 2] (Some 7) ?runs))
      = found (projr (getCommitForRuns ?env [2, 0, 1] (Some 7) ?runs))"
    using t h1' v v' by simp
  show ?thesis using h1 h1' h2 v c1 c2 by simp
qed

section \<open>Malformed revisions\<close>

text \<open>
  C6. A record whose revision does not decode as hexadecimal, or decodes to a number of
  bytes other than five, makes its goroutine call \<open>log.Fatal\<close> or \<open>log.Fatalf\<close>; a
  revision that is not ten characters long is such a record. If the batch holds such a
  record, the run ends in a fatal abort in whatever order the goroutines take effect.
  A revision of ten hexadecimal digits decodes to five bytes and its goroutine calls
  neither; a batch of such revisions is matched to the end.
\<close>

theorem malformed_revision_is_fatal:
  assumes "schedule (length runs) sched"
    and "repo_CommitObjects env r = Inr (commits, EOF)"
  shows "(\<forall>e. hex_DecodeString (Revision run) = Inl e \<longrightarrow>
            goroutine idx i run st = Inl (Fatal e)) \<and>
         (\<forall>bs. hex_DecodeString (Revision run) = Inr bs \<and> length bs \<noteq> 5 \<longrightarrow>
            goroutine idx i run st = Inl (FatalHashLength (length bs))) \<and>
         (length (Revision run) \<noteq> 10 \<longrightarrow>
            (case hex_DecodeString (Revision run) of
               Inl e \<Rightarrow> True | Inr bs \<Rightarrow> length bs \<noteq> 5)) \<and>
         (\<forall>k<length runs.
            (case hex_DecodeString (Revision (runs ! k)) of
               Inl e \<Rightarrow> True | Inr bs \<Rightarrow> length bs \<noteq> 5) \<longrightarrow>
            (\<exists>a. getCommitForRuns env sched (Some r) runs = Inl a \<and>
                 ((\<exists>e. a = Fatal e) \<or> (\<exists>n. a = FatalHashLength n)))) \<and>
         (length (Revision run) = 10 \<and> set (Revision run) \<subseteq> set ''0123456789abcdefABCDEF'' \<longrightarrow>
            (\<exists>bs. hex_DecodeString (Revision run) = Inr bs \<and> length bs = 5) \<and>
            (\<forall>e. goroutine idx i run st \<noteq> Inl (Fatal e)) \<and>
            (\<forall>n. goroutine idx i run st \<noteq> Inl (FatalHashLength n))) \<and>
         ((\<forall>run\<in>set runs. length (Revision run) = 10 \<and>
                           set (Revision run) \<subseteq> set ''0123456789abcdefABCDEF'') \<longrightarrow>
            (\<exists>st'. getCommitForRuns env sched (Some r) runs = Inr st'))"
proof -
  note c = getCommitForRuns_cases [OF assms]
  have p1: "\<forall>e. hex_DecodeString (Revision run) = Inl e \<longrightarrow>
            goroutine idx i run st = Inl (Fatal e)"
    using goroutine_decode_error by blast
  have p2: "\<forall>bs. hex_DecodeString (Revision run) = Inr bs \<and> length bs \<noteq> 5 \<longrightarrow>
            goroutine idx i run st = Inl (FatalHashLength (length bs))"
    using goroutine_wrong_length by blast
  have p2': "length (Revision run) \<noteq> 10 \<longrightarrow>
            (case hex_DecodeString (Revision run) of
               Inl e \<Rightarrow> True | Inr bs \<Rightarrow> length bs \<noteq> 5)"
    using hex_DecodeString_Inr [of "Revision run"] by (auto split: sum.splits)
  have p3: "\<exists>a. getCommitForRuns env sched (Some r) runs = Inl a \<and>
                 ((\<exists>e. a = Fatal e) \<or> (\<exists>n. a = FatalHashLength n))"
    if k: "k < length runs"
      and bad: "case hex_DecodeString (Revision (runs ! k)) of
               Inl e \<Rightarrow> True | Inr bs \<Rightarrow> length bs \<noteq> 5" for k
  proof -
    have ab: "\<exists>a. resolve_alone (build commits) (runs ! k) = Inl a"
      using bad resolve_alone_decode_error resolve_alone_wrong_length
      by (fastforce split: sum.splits)
    show ?thesis
    proof (cases "getCommitForRuns env sched (Some r) runs")
      case (Inl a)
      then obtain j where "resolve_alone (build commits) (runs ! j) = Inl a"
        using c by auto
      then show ?thesis using Inl resolve_alone_abort_kinds by blast
    next
      case (Inr st')
      then have "resolve_alone (build commits) (runs ! k) = Inr (found st' ! k)"
        using c k by simp
      then show ?thesis using ab by simp
    qed
  qed
  have p4: "(\<exists>bs. hex_DecodeString (Revision run) = Inr bs \<and> length bs = 5) \<and>
            (\<forall>e. goroutine idx i run st \<noteq> Inl (Fatal e)) \<and>
            (\<forall>n. goroutine idx i run st \<noteq> Inl (FatalHashLength n))"
    if ten: "length (Revision run) = 10 \<and> set (Revision run) \<subseteq> set ''0123456789abcdefABCDEF''"
  proof -
    obtain bs where bs: "hex_DecodeString (Revision run) = Inr bs" "length bs = 5"
      using ten_hex_digits_decode ten by blast
    then show ?thesis by (simp add: goroutine_def Let_def)
  qed
  have p5: "\<exists>st'. getCommitForRuns env sched (Some r) runs = Inr st'"
    if wf: "\<forall>run\<in>set runs. length (Revision run) = 10 \<and>
                           set (Revision run) \<subseteq> set ''0123456789abcdefABCDEF''"
  proof (cases "getCommitForRuns env sched (Some r) runs")
    case (Inl a)
    then obtain j where j: "j < length runs" "resolve_alone (build commits) (runs ! j) = Inl a"
      using c by auto
    then have "\<exists>out. resolve_alone (build commits) (runs ! j) = Inr out"
      using wf resolve_alone_ten_hex_digits nth_mem by blast
    then show ?thesis using j by simp
  next
    case (Inr st')
    then show ?thesis by blast
  qed
  show ?thesis using p1 p2 p2' p3 p4 p5 by blast
qed

theorem malformed_revision_is_fatal_witness:
  "schedule (length [\<lparr>Revision = ''0000000001''\<rparr>, \<lparr>Revision = ''00zz''\<rparr>]) [1, 0] \<and>
   repo_CommitObjects \<lparr>git_Open = Inr 7, git_Clone = Inr 7, repo_Worktree = Inr, wt_Pull = Map.empty,
        repo_CommitObjects = (\<lambda>r. Inr ([\<lparr>Hash = 1 # replicate 14 0 @ [0, 0, 0, 0, 5], Message = []\<rparr>,
                                          \<lparr>Hash = 0 # replicate 14 0 @ [0, 0, 0, 0, 1], Message = []\<rparr>], EOF))\<rparr> 7
     = Inr ([\<lparr>Hash = 1 # replicate 14 0 @ [0, 0, 0, 0, 5], Message = []\<rparr>,
             \<lparr>Hash = 0 # replicate 14 0 @ [0, 0, 0, 0, 1], Message = []\<rparr>], EOF) \<and>
   hex_DecodeString ''00zz'' = Inl (InvalidByteError CHR ''z'') \<and>
   hex_DecodeString ''0000'' = Inr [0, 0] \<and>
   goroutine (build [\<lparr>Hash = 1 # replicate 14 0 @ [0, 0, 0, 0, 5], Message = []\<rparr>,
                     \<lparr>Hash = 0 # replicate 14 0 @ [0, 0, 0, 0, 1], Message = []\<rparr>]) 1 \<lparr>Revision = ''00zz''\<rparr>
       \<lparr>found = [None, None], logged = []\<rparr> = Inl (Fatal (InvalidByteError CHR ''z'')) \<and>
   goroutine (build [\<lparr>Hash = 1 # replicate 14 0 @ [0, 0, 0, 0, 5], Message = []\<rparr>,
                     \<lparr>Hash = 0 # replicate 14 0 @ [0, 0, 0, 0, 1], Message = []\<rparr>]) 1 \<lparr>Revision = ''0000''\<rparr>
       \<lparr>found = [None, None], logged = []\<rparr> = Inl (FatalHashLength 2) \<and>
   (\<exists>a. getCommitForRuns \<lparr>git_Open = Inr 7, git_Clone = Inr 7, repo_Worktree = Inr, wt_Pull = Map.empty,
        repo_CommitObjects = (\<lambda>r. Inr ([\<lparr>Hash = 1 # replicate 14 0 @ [0, 0, 0, 0, 5], Message = []\<rparr>,
                                          \<lparr>Hash = 0 # replicate 14 0 @ [0, 0, 0, 0, 1], Message = []\<rparr>], EOF))\<rparr> [1, 0] (Some 7) [\<lparr>Revision = ''0000000001''\<rparr>, \<lparr>Revision = ''00zz''\<rparr>] = Inl a \<and>
        ((\<exists>e. a = Fatal e) \<or> (\<exists>n. a = FatalHashLength n))) \<and>
   getCommitForRuns \<lparr>git_Open = Inr 7, git_Clone = Inr 7, repo_Worktree = Inr, wt_Pull = Map.empty,
        repo_CommitObjects = (\<lambda>r. Inr ([\<lparr>Hash = 1 # replicate 14 0 @ [0, 0, 0, 0, 5], Message = []\<rparr>,
                                          \<lparr>Hash = 0 # replicate 14 0 @ [0, 0, 0, 0, 1], Message = []\<rparr>], EOF))\<rparr> [1, 0] (Some 7) [\<lparr>Revision = ''0000000001''\<rparr>, \<lparr>Revision = ''00zz''\<rparr>]
     = Inl (Fatal (InvalidByteError CHR ''z'')) \<and>
   length ''0000000001'' = 10 \<and>
   set ''0000000001'' \<subseteq> set ''0123456789abcdefABCDEF'' \<and>
   hex_DecodeString ''0000000001'' = Inr [0, 0, 0, 0, 1] \<and>
   (\<exists>st'. getCommitForRuns \<lparr>git_Open = Inr 7, git_Clone = Inr 7, repo_Worktree = Inr, wt_Pull = Map.empty,
        repo_CommitObjects = (\<lambda>r. Inr ([\<lparr>Hash = 1 # replicate 14 0 @ [0, 0, 0, 0, 5], Message = []\<rparr>,
                                          \<lparr>Hash = 0 # replicate 14 0 @ [0, 0, 0, 0, 1], Message = []\<rparr>], EOF))\<rparr> [0] (Some 7) [\<lparr>Revision = ''0000000001''\<rparr>] = Inr st')"
proof -
  let ?A = "\<lparr>Hash = 0 # replicate 14 0 @ [0, 0, 0, 0, 1], Message = []\<rparr> :: commit"
  let ?B = "\<lparr>Hash = 1 # replicate 14 0 @ [0, 0, 0, 0, 5], Message = []\<rparr> :: commit"
  let ?env = "\<lparr>git_Open = Inr 7, git_Clone = Inr 7, repo_Worktree = Inr, wt_Pull = Map.empty,
        repo_CommitObjects = (\<lambda>r. Inr ([\<lparr>Hash = 1 # replicate 14 0 @ [0, 0, 0, 0, 5], Message = []\<rparr>,
                                          \<lparr>Hash = 0 # replicate 14 0 @ [0, 0, 0, 0, 1], Message = []\<rparr>], EOF))\<rparr>"
  let ?st = "\<lparr>found = [None, None], logged = []\<rparr>"
  let ?bad = "\<lparr>Revision = ''00zz''\<rparr>"
  let ?short = "\<lparr>Revision = ''0000''\<rparr>"
  let ?good = "\<lparr>Revision = ''0000000001''\<rparr>"
  have h1: "schedule (length [\<lparr>Revision = ''0000000001''\<rparr>, \<lparr>Revision = ''00zz''\<rparr>]) [1, 0]" by code_simp
  have h2: "repo_CommitObjects ?env 7 = Inr ([?B, ?A], EOF)" by simp
  have d1: "hex_DecodeString ''00zz'' = Inl (InvalidByteError CHR ''z'')" by code_simp
  have d2: "hex_DecodeString ''0000'' = Inr [0, 0]" by code_simp
  have d3: "hex_DecodeString ''0000000001'' = Inr [0, 0, 0, 0, 1]" by code_simp
  have e1: "hex_DecodeString (Revision ?bad) = Inl (InvalidByteError CHR ''z'')"
    using d1 by simp
  have e2: "hex_DecodeString (Revision ?short) = Inr [0, 0] \<and> length [0 :: byte, 0] \<noteq> 5"
    using d2 by simp
  have k: "1 < length [\<lparr>Revision = ''0000000001''\<rparr>, \<lparr>Revision = ''00zz''\<rparr>]" by simp
  have bad: "case hex_DecodeString (Revision ([\<lparr>Revision = ''0000000001''\<rparr>, \<lparr>Revision = ''00zz''\<rparr>] ! 1)) of
               Inl e \<Rightarrow> True | Inr bs \<Rightarrow> length bs \<noteq> 5"
    using d1 by simp
  have ten: "length (Revision ?good) = 10 \<and>
             set (Revision ?good) \<subseteq> set ''0123456789abcdefABCDEF''"
    by simp
  have all_ten: "\<forall>run\<in>set [\<lparr>Revision = ''0000000001''\<rparr>]. length (Revision run) = 10 \<and>
                           set (Revision run) \<subseteq> set ''0123456789abcdefABCDEF''"
    by simp
  note t1 = malformed_revision_is_fatal [OF h1 h2,
      where run = ?bad and idx = "build [?B, ?A]" and i = 1 and st = ?st]
  note t2 = malformed_revision_is_fatal [OF h1 h2,
      where run = ?short and idx = "build [?B, ?A]" and i = 1 and st = ?st]
  have c1: "goroutine (build [?B, ?A]) 1 ?bad ?st = Inl (Fatal (InvalidByteError CHR ''z''))"
    using t1 e1 by blast
  have c2: "goroutine (build [?B, ?A]) 1 ?short ?st = Inl (FatalHashLength (length [0 :: byte, 0]))"
    using t2 e2 by blast
  have c3: "\<exists>a. getCommitForRuns ?env [1, 0] (Some 7) [\<lparr>Revision = ''0000000001''\<rparr>, \<lparr>Revision = ''00zz''\<rparr>] = Inl a \<and>
        ((\<exists>e. a = Fatal e) \<or> (\<exists>n. a = FatalHashLength n))"
    using t1 k bad by blast
  have v: "getCommitForRuns ?env [1, 0] (Some 7) [\<lparr>Revision = ''0000000001''\<rparr>, \<lparr>Revision = ''00zz''\<rparr>]
      = Inl (Fatal (InvalidByteError CHR ''z''))"
    by code_simp
  have g1: "schedule (length [\<lparr>Revision = ''0000000001''\<rparr>]) [0]" by code_simp
  note t3 = malformed_revision_is_fatal [OF g1 h2,
      where run = ?good and idx = "build [?B, ?A]" and i = 0 and st = ?st]
  have c4: "\<exists>st'. getCommitForRuns ?env [0] (Some 7) [\<lparr>Revision = ''0000000001''\<rparr>] = Inr st'"
    using t3 all_ten by blast
  have c2': "goroutine (build [?B, ?A]) 1 ?short ?st = Inl (FatalHashLength 2)"
    using c2 by simp
  have ten': "length ''0000000001'' = 10" "set ''0000000001'' \<subseteq> set ''0123456789abcdefABCDEF''"
    by simp_all
  show ?thesis
    by (intro conjI) (fact h1 h2 d1 d2 d3 c1 c2' c3 v ten' c4)+
qed

section \<open>Lookup misses\<close>

text \<open>
  C7. Take a record whose revision decodes to five bytes for which \<open>findHash\<close>
  returns \<open>-1\<close>. Its goroutine does not abort: it logs the miss and leaves \<open>found\<close> as
  it is. If the run aborts, it is another record that aborts it; if no other record
  aborts, the run returns. In the returned state the record's slot is nil, the miss is
  in the log, and every other slot holds what resolving its record by itself gives.
\<close>

theorem lookup_miss_is_recoverable:
  assumes "schedule (length runs) sched"
    and "repo_CommitObjects env r = Inr (commits, EOF)"
    and "i < length runs"
    and "hex_DecodeString (Revision (runs ! i)) = Inr shortHash"
    and "length shortHash = 5"
    and "findHash (build commits) shortHash = - 1"
  shows "(\<forall>st. goroutine (build commits) i (runs ! i) st
            = Inr (st\<lparr>logged := logged st @
                       [''Failed to find revision for '' @ Revision (runs ! i)]\<rparr>)) \<and>
         (case getCommitForRuns env sched (Some r) runs of
            Inl a \<Rightarrow>
              \<exists>j<length runs. j \<noteq> i \<and> resolve_alone (build commits) (runs ! j) = Inl a
          | Inr st \<Rightarrow>
              found st ! i = None \<and>
              ''Failed to find revision for '' @ Revision (runs ! i) \<in> set (logged st) \<and>
              (\<forall>j<length runs. j \<noteq> i \<longrightarrow>
                 resolve_alone (build commits) (runs ! j) = Inr (found st ! j))) \<and>
         ((\<forall>j<length runs. j \<noteq> i \<longrightarrow>
              (\<exists>out. resolve_alone (build commits) (runs ! j) = Inr out)) \<longrightarrow>
            (\<exists>st. getCommitForRuns env sched (Some r) runs = Inr st))"
proof -
  note c = getCommitForRuns_cases [OF assms(1,2)]
  have miss: "resolve_alone (build commits) (runs ! i) = Inr None"
    using resolve_alone_well_formed [OF assms(4,5)] assms(6) by simp
  have p1: "\<forall>st. goroutine (build commits) i (runs ! i) st
            = Inr (st\<lparr>logged := logged st @
                       [''Failed to find revision for '' @ Revision (runs ! i)]\<rparr>)"
    using assms(4,5,6) by (simp add: goroutine_def)
  have p2: "case getCommitForRuns env sched (Some r) runs of
            Inl a \<Rightarrow>
              \<exists>j<length runs. j \<noteq> i \<and> resolve_alone (build commits) (runs ! j) = Inl a
          | Inr st \<Rightarrow>
              found st ! i = None \<and>
              ''Failed to find revision for '' @ Revision (runs ! i) \<in> set (logged st) \<and>
              (\<forall>j<length runs. j \<noteq> i \<longrightarrow>
                 resolve_alone (build commits) (runs ! j) = Inr (found st ! j))"
  proof (cases "getCommitForRuns env sched (Some r) runs")
    case (Inl a)
    then obtain j where j: "j < length runs" "resolve_alone (build commits) (runs ! j) = Inl a"
      using c by auto
    then have "j \<noteq> i" using miss by auto
    then show ?thesis using Inl j by auto
  next
    case (Inr st)
    have "resolve_alone (build commits) (runs ! i) = Inr (found st ! i)"
      using c Inr assms(3) by simp
    then have "found st ! i = None" using miss by simp
    then show ?thesis using c Inr assms(3) miss by simp
  qed
  have p3: "\<exists>st. getCommitForRuns env sched (Some r) runs = Inr st"
    if others: "\<forall>j<length runs. j \<noteq> i \<longrightarrow>
              (\<exists>out. resolve_alone (build commits) (runs ! j) = Inr out)"
  proof (cases "getCommitForRuns env sched (Some r) runs")
    case (Inl a)
    then obtain j where "j < length runs" "j \<noteq> i"
      "resolve_alone (build commits) (runs ! j) = Inl a"
      using p2 by auto
    then show ?thesis using others by auto
  next
    case (Inr st)
    then show ?thesis by blast
  qed
  show ?thesis using p1 p2 p3 by blast
qed

theorem lookup_miss_is_recoverable_witness:
  "schedule (length [\<lparr>Revision = ''0000000005''\<rparr>, \<lparr>Revision = ''0000000000''\<rparr>,
        \<lparr>Revision = ''0000000001''\<rparr>]) [2, 0, 1] \<and>
   repo_CommitObjects \<lparr>git_Open = Inr 7, git_Clone = Inr 7, repo_Worktree = Inr, wt_Pull = Map.empty,
        repo_CommitObjects = (\<lambda>r. Inr ([\<lparr>Hash = 1 # replicate 14 0 @ [0, 0, 0, 0, 5], Message = []\<rparr>,
                                          \<lparr>Hash = 0 # replicate 14 0 @ [0, 0, 0, 0, 1], Message = []\<rparr>], EOF))\<rparr> 7
     = Inr ([\<lparr>Hash = 1 # replicate 14 0 @ [0, 0, 0, 0, 5], Message = []\<rparr>,
             \<lparr>Hash = 0 # replicate 14 0 @ [0, 0, 0, 0, 1], Message = []\<rparr>], EOF) \<and>
   hex_DecodeString (Revision ([\<lparr>Revision = ''0000000005''\<rparr>, \<lparr>Revision = ''0000000000''\<rparr>,
        \<lparr>Revision = ''0000000001''\<rparr>] ! 1)) = Inr [0, 0, 0, 0, 0] \<and>
   findHash (build [\<lparr>Hash = 1 # replicate 14 0 @ [0, 0, 0, 0, 5], Message = []\<rparr>,
                    \<lparr>Hash = 0 # replicate 14 0 @ [0, 0, 0, 0, 1], Message = []\<rparr>]) [0, 0, 0, 0, 0] = - 1 \<and>
   getCommitForRuns \<lparr>git_Open = Inr 7, git_Clone = Inr 7, repo_Worktree = Inr, wt_Pull = Map.empty,
        repo_CommitObjects = (\<lambda>r. Inr ([\<lparr>Hash = 1 # replicate 14 0 @ [0, 0, 0, 0, 5], Message = []\<rparr>,
                                          \<lparr>Hash = 0 # replicate 14 0 @ [0, 0, 0, 0, 1], Message = []\<rparr>], EOF))\<rparr> [2, 0, 1] (Some 7) [\<lparr>Revision = ''0000000005''\<rparr>, \<lparr>Revision = ''0000000000''\<rparr>,
        \<lparr>Revision = ''0000000001''\<rparr>]
     = Inr \<lparr>found = [Some \<lparr>Hash = 1 # replicate 14 0 @ [0, 0, 0, 0, 5], Message = []\<rparr>,
                     None,
                     Some \<lparr>Hash = 0 # replicate 14 0 @ [0, 0, 0, 0, 1], Message = []\<rparr>],
            logged = [''Gathering commits'', ''Sorting commits'', ''Matching commits'',
                      ''Found commit for 0000000001'', ''Found commit for 0000000005'',
                      ''Failed to find revision for 0000000000'']\<rparr> \<and>
   goroutine (build [\<lparr>Hash = 1 # replicate 14 0 @ [0, 0, 0, 0, 5], Message = []\<rparr>,
                     \<lparr>Hash = 0 # replicate 14 0 @ [0, 0, 0, 0, 1], Message = []\<rparr>]) 1 \<lparr>Revision = ''0000000000''\<rparr>
       \<lparr>found = [Some \<lparr>Hash = 1 # replicate 14 0 @ [0, 0, 0, 0, 5], Message = []\<rparr>, None, None],
        logged = []\<rparr>
     = Inr \<lparr>found = [Some \<lparr>Hash = 1 # replicate 14 0 @ [0, 0, 0, 0, 5], Message = []\<rparr>, None, None],
            logged = [''Failed to find revision for 0000000000'']\<rparr> \<and>
   resolve_alone (build [\<lparr>Hash = 1 # replicate 14 0 @ [0, 0, 0, 0, 5], Message = []\<rparr>,
                         \<lparr>Hash = 0 # replicate 14 0 @ [0, 0, 0, 0, 1], Message = []\<rparr>]) \<lparr>Revision = ''0000000005''\<rparr>
     = Inr (Some \<lparr>Hash = 1 # replicate 14 0 @ [0, 0, 0, 0, 5], Message = []\<rparr>)"
proof -
  let ?A = "\<lparr>Hash = 0 # replicate 14 0 @ [0, 0, 0, 0, 1], Message = []\<rparr> :: commit"
  let ?B = "\<lparr>Hash = 1 # replicate 14 0 @ [0, 0, 0, 0, 5], Message = []\<rparr> :: commit"
  let ?env = "\<lparr>git_Open = Inr 7, git_Clone = Inr 7, repo_Worktree = Inr, wt_Pull = Map.empty,
        repo_CommitObjects = (\<lambda>r. Inr ([\<lparr>Hash = 1 # replicate 14 0 @ [0, 0, 0, 0, 5], Message = []\<rparr>,
                                          \<lparr>Hash = 0 # replicate 14 0 @ [0, 0, 0, 0, 1], Message = []\<rparr>], EOF))\<rparr>"
  let ?runs = "[\<lparr>Revision = ''0000000005''\<rparr>, \<lparr>Revision = ''0000000000''\<rparr>,
        \<lparr>Revision = ''0000000001''\<rparr>]"
  have h1: "schedule (length ?runs) [2, 0, 1]" by code_simp
  have h2: "repo_CommitObjects ?env 7 = Inr ([?B, ?A], EOF)" by simp
  have h3: "1 < length ?runs" by simp
  have h4: "hex_DecodeString (Revision (?runs ! 1)) = Inr [0, 0, 0, 0, 0]" by code_simp
  have h5: "length [0 :: byte, 0, 0, 0, 0] = 5" by simp
  have h6: "findHash (build [?B, ?A]) [0, 0, 0, 0, 0] = - 1" by code_simp
  have v: "getCommitForRuns ?env [2, 0, 1] (Some 7) ?runs
      = Inr \<lparr>found = [Some ?B, None, Some ?A],
             logged = [''Gathering commits'', ''Sorting commits'', ''Matching commits'',
                       ''Found commit for 0000000001'', ''Found commit for 0000000005'',
                       ''Failed to find revision for 0000000000'']\<rparr>"
    by code_simp
  note t = lookup_miss_is_recoverable [OF h1 h2 h3 h4 h5 h6]
  have c1: "goroutine (build [?B, ?A]) 1 \<lparr>Revision = ''0000000000''\<rparr>
       \<lparr>found = [Some ?B, None, None], logged = []\<rparr>
     = Inr \<lparr>found = [Some ?B, None, None],
            logged = [''Failed to find revision for 0000000000'']\<rparr>"
    using t by simp
  have "\<forall>j<length ?runs. j \<noteq> 1 \<longrightarrow>
      resolve_alone (build [?B, ?A]) (?runs ! j) = Inr ([Some ?B, None, Some ?A] ! j)"
    using t v by simp
  from this [rule_format, of 0]
  have c2: "resolve_alone (build [?B, ?A]) \<lparr>Revision = ''0000000005''\<rparr> = Inr (Some ?B)"
    by simp
  show ?thesis using h1 h2 h4 h6 v c1 c2 by simp
qed

section \<open>An existing mirror\<close>

text \<open>
  C8. When \<open>git.Open\<close> finds the repository and hands out its worktree, \<open>getGit\<close>
  opens, takes the worktree and pulls, in this order. If the pull reports no error or
  \<open>NoErrAlreadyUpToDate\<close>, the opened repository is returned and \<open>main\<close> goes on to
  match the runs against it. Any other pull error is fatal.
\<close>

theorem getGit_existing_mirror:
  assumes "git_Open env = Inr repo" and "repo_Worktree env repo = Inr wt"
  shows "fst (getGit env) = [CallOpen, CallWorktree, CallPull] \<and>
         (wt_Pull env wt = None \<or> wt_Pull env wt = Some NoErrAlreadyUpToDate \<longrightarrow>
            snd (getGit env) = Inr (Some repo) \<and>
            main_run env sched runs = getCommitForRuns env sched (Some repo) runs) \<and>
         (\<forall>e. wt_Pull env wt = Some e \<and> e \<noteq> NoErrAlreadyUpToDate \<longrightarrow>
            snd (getGit env) = Inl (Fatal e) \<and> main_run env sched runs = Inl (Fatal e))"
  using assms by (auto simp: getGit_def main_run_def split: option.splits)

theorem getGit_existing_mirror_witness:
  "git_Open \<lparr>git_Open = Inr 7, git_Clone = Inr 7, repo_Worktree = Inr,
             wt_Pull = (\<lambda>w. Some NoErrAlreadyUpToDate),
             repo_CommitObjects = (\<lambda>r. Inr ([], EOF))\<rparr> = Inr 7 \<and>
   getGit \<lparr>git_Open = Inr 7, git_Clone = Inr 7, repo_Worktree = Inr,
           wt_Pull = (\<lambda>w. Some NoErrAlreadyUpToDate),
           repo_CommitObjects = (\<lambda>r. Inr ([], EOF))\<rparr>
     = ([CallOpen, CallWorktree, CallPull], Inr (Some 7)) \<and>
   getGit \<lparr>git_Open = Inr 7, git_Clone = Inr 7, repo_Worktree = Inr,
           wt_Pull = Map.empty,
           repo_CommitObjects = (\<lambda>r. Inr ([], EOF))\<rparr>
     = ([CallOpen, CallWorktree, CallPull], Inr (Some 7)) \<and>
   getGit \<lparr>git_Open = Inr 7, git_Clone = Inr 7, repo_Worktree = Inr,
           wt_Pull = (\<lambda>w. Some (OtherError ''connection refused'')),
           repo_CommitObjects = (\<lambda>r. Inr ([], EOF))\<rparr>
     = ([CallOpen, CallWorktree, CallPull], Inl (Fatal (OtherError ''connection refused'')))"
proof -
  let ?e1 = "\<lparr>git_Open = Inr 7, git_Clone = Inr 7, repo_Worktree = Inr,
           wt_Pull = (\<lambda>w. Some NoErrAlreadyUpToDate),
           repo_CommitObjects = (\<lambda>r. Inr ([], EOF))\<rparr>"
  let ?e2 = "\<lparr>git_Open = Inr 7, git_Clone = Inr 7, repo_Worktree = Inr,
           wt_Pull = Map.empty,
           repo_CommitObjects = (\<lambda>r. Inr ([], EOF))\<rparr>"
  let ?e3 = "\<lparr>git_Open = Inr 7, git_Clone = Inr 7, repo_Worktree = Inr,
           wt_Pull = (\<lambda>w. Some (OtherError ''connection refused'')),
           repo_CommitObjects = (\<lambda>r. Inr ([], EOF))\<rparr>"
  have o1: "git_Open ?e1 = Inr 7" and w1: "repo_Worktree ?e1 7 = Inr 7" by simp_all
  have o2: "git_Open ?e2 = Inr 7" and w2: "repo_Worktree ?e2 7 = Inr 7" by simp_all
  have o3: "git_Open ?e3 = Inr 7" and w3: "repo_Worktree ?e3 7 = Inr 7" by simp_all
  have c1: "getGit ?e1 = ([CallOpen, CallWorktree, CallPull], Inr (Some 7))"
    using getGit_existing_mirror [OF o1 w1, of "[]" "[]"] by (simp add: prod_eq_iff)
  have c2: "getGit ?e2 = ([CallOpen, CallWorktree, CallPull], Inr (Some 7))"
    using getGit_existing_mirror [OF o2 w2, of "[]" "[]"] by (simp add: prod_eq_iff)
  have c3: "getGit ?e3
      = ([CallOpen, CallWorktree, CallPull], Inl (Fatal (OtherError ''connection refused'')))"
    using getGit_existing_mirror [OF o3 w3, of "[]" "[]"] by (simp add: prod_eq_iff)
  show ?thesis using o1 c1 c2 c3 by simp
qed

section \<open>A missing mirror\<close>

text \<open>
  C2. When \<open>git.Open\<close> reports \<open>ErrRepositoryNotExists\<close> and the clone succeeds,
  \<open>getGit\<close> returns nil (line 90), not the cloned repository, and
  \<open>getCommitForRuns\<close> then calls \<open>CommitObjects\<close> on nil: the run ends in a panic.
  Given the cloned repository itself, the same records would have been matched.
\<close>

theorem getGit_fresh_clone_returns_nil:
  "getGit \<lparr>git_Open = Inl ErrRepositoryNotExists, git_Clone = Inr 7, repo_Worktree = Inr,
           wt_Pull = Map.empty,
           repo_CommitObjects = (\<lambda>r. Inr ([\<lparr>Hash = replicate 20 0, Message = []\<rparr>], EOF))\<rparr>
     = ([CallOpen, CallClone], Inr None) \<and>
   main_run \<lparr>git_Open = Inl ErrRepositoryNotExists, git_Clone = Inr 7, repo_Worktree = Inr,
             wt_Pull = Map.empty,
             repo_CommitObjects = (\<lambda>r. Inr ([\<lparr>Hash = replicate 20 0, Message = []\<rparr>], EOF))\<rparr>
            [0] [\<lparr>Revision = ''0000000000''\<rparr>]
     = Inl PanicNilDereference \<and>
   getCommitForRuns \<lparr>git_Open = Inl ErrRepositoryNotExists, git_Clone = Inr 7,
             repo_Worktree = Inr, wt_Pull = Map.empty,
             repo_CommitObjects = (\<lambda>r. Inr ([\<lparr>Hash = replicate 20 0, Message = []\<rparr>], EOF))\<rparr>
            [0] (Some 7) [\<lparr>Revision = ''0000000000''\<rparr>]
     = Inr \<lparr>found = [Some \<lparr>Hash = replicate 20 0, Message = []\<rparr>],
            logged = [''Gathering commits'', ''Sorting commits'', ''Matching commits'',
                      ''Found commit for 0000000000'']\<rparr>"
  by code_simp

end
